theory Spec2Isabelle
  imports Complex_Main "HOL-Library.Sublist"
begin

section \<open>Strings and numbers of the script\<close>

text \<open>
  Layer and item names are modelled as \<open>string\<close> over the ASCII range: \<open>toLowerCase\<close>
  maps \<open>A..Z\<close> to \<open>a..z\<close> and leaves every other character alone, \<open>\s\<close> is tab, line
  feed, vertical tab, form feed, carriage return and space, \<open>\d\<close> is \<open>0..9\<close>.
\<close>

definition isSpace :: "char \<Rightarrow> bool" where
  "isSpace c = (c \<in> set [CHR 0x09, CHR 0x0A, CHR 0x0B, CHR 0x0C, CHR 0x0D, CHR 0x20])"

definition isDigit :: "char \<Rightarrow> bool" where
  "isDigit c = (c \<in> set ''0123456789'')"

text \<open>\<open>s.replace(/^\s+|\s+$/g, '')\<close>: leading and trailing white space removed.\<close>

definition trim :: "string \<Rightarrow> string" where
  "trim s = rev (dropWhile isSpace (rev (dropWhile isSpace s)))"

definition toLowerChar :: "char \<Rightarrow> char" where
  "toLowerChar c =
     (case map_of (zip ''ABCDEFGHIJKLMNOPQRSTUVWXYZ'' ''abcdefghijklmnopqrstuvwxyz'') c of
        Some d \<Rightarrow> d
      | None \<Rightarrow> c)"

definition toLowerCase :: "string \<Rightarrow> string" where
  "toLowerCase s = map toLowerChar s"

text \<open>\<open>s.indexOf(p)\<close>: the first position where \<open>p\<close> starts in \<open>s\<close>, or \<open>-1\<close>.\<close>

fun indexOfFrom :: "int \<Rightarrow> string \<Rightarrow> string \<Rightarrow> int" where
  "indexOfFrom i [] p = (if p = [] then i else - 1)"
| "indexOfFrom i (c # cs) p = (if prefix p (c # cs) then i else indexOfFrom (i + 1) cs p)"

definition indexOf :: "string \<Rightarrow> string \<Rightarrow> int" where
  "indexOf s p = indexOfFrom 0 s p"

text \<open>\<open>s.split(sep)\<close> for a separator of one character.\<close>

fun split :: "char \<Rightarrow> string \<Rightarrow> string list" where
  "split sep [] = [[]]"
| "split sep (c # cs) =
     (if c = sep then [] # split sep cs
      else (case split sep cs of
              [] \<Rightarrow> [[c]]
            | p # ps \<Rightarrow> (c # p) # ps))"

text \<open>The regular expressions of the script, each as a deterministic matcher.\<close>

definition matchDigits :: "string \<Rightarrow> bool" where  \<comment> \<open>\<open>/^\d+$/\<close>\<close>
  "matchDigits s = (s \<noteq> [] \<and> list_all isDigit s)"

definition matchWxH :: "string \<Rightarrow> bool" where  \<comment> \<open>\<open>/^\d+x\d+$/\<close>\<close>
  "matchWxH s =
     (takeWhile isDigit s \<noteq> [] \<and>
      (case dropWhile isDigit s of
         [] \<Rightarrow> False
       | c # h \<Rightarrow> c = CHR ''x'' \<and> matchDigits h))"

definition match79x :: "string \<Rightarrow> bool" where  \<comment> \<open>\<open>/^79x\d+$/\<close>\<close>
  "match79x s = (take 3 s = ''79x'' \<and> matchDigits (drop 3 s))"

text \<open>
  JavaScript numbers are modelled as exact rationals extended by the two infinities and
  NaN; rounding of IEEE doubles is not modelled.
\<close>

datatype jsnum = NaN | NegInf | Fin rat | PosInf

fun lt :: "jsnum \<Rightarrow> jsnum \<Rightarrow> bool" where  \<comment> \<open>\<open>a < b\<close>\<close>
  "lt NaN _ = False"
| "lt _ NaN = False"
| "lt (Fin a) (Fin b) = (a < b)"
| "lt NegInf NegInf = False"
| "lt NegInf _ = True"
| "lt _ NegInf = False"
| "lt PosInf _ = False"
| "lt _ PosInf = True"

definition gt :: "jsnum \<Rightarrow> jsnum \<Rightarrow> bool" where  \<comment> \<open>\<open>a > b\<close>\<close>
  "gt a b = lt b a"

fun add :: "jsnum \<Rightarrow> jsnum \<Rightarrow> jsnum" where  \<comment> \<open>\<open>a + b\<close>\<close>
  "add NaN _ = NaN"
| "add _ NaN = NaN"
| "add (Fin a) (Fin b) = Fin (a + b)"
| "add PosInf NegInf = NaN"
| "add NegInf PosInf = NaN"
| "add PosInf _ = PosInf"
| "add _ PosInf = PosInf"
| "add NegInf _ = NegInf"
| "add _ NegInf = NegInf"

fun neg :: "jsnum \<Rightarrow> jsnum" where
  "neg NaN = NaN"
| "neg NegInf = PosInf"
| "neg (Fin a) = Fin (- a)"
| "neg PosInf = NegInf"

definition sub :: "jsnum \<Rightarrow> jsnum \<Rightarrow> jsnum" where  \<comment> \<open>\<open>a - b\<close>\<close>
  "sub a b = add a (neg b)"

fun half :: "jsnum \<Rightarrow> jsnum" where  \<comment> \<open>\<open>a / 2\<close>\<close>
  "half (Fin a) = Fin (a / 2)"
| "half a = a"

definition digitVal :: "char \<Rightarrow> nat" where
  "digitVal c = of_char c - 48"

definition decimal :: "string \<Rightarrow> nat" where
  "decimal s = foldl (\<lambda>acc c. 10 * acc + digitVal c) 0 s"

text \<open>
  \<open>parseFloat\<close> on the strings the script passes to it, the two digit runs of a name
  matched by \<open>/^\d+x\d+$/\<close>: the decimal value. Any other string is outside the modelled
  fragment and reads as NaN.
\<close>

definition parseFloat :: "string \<Rightarrow> jsnum" where
  "parseFloat s = (if matchDigits s then Fin (of_nat (decimal s)) else NaN)"

section \<open>Configuration\<close>

record mapping =
  sizeGroup :: string
  bleedWidth :: rat
  bleedHeight :: rat
  templateGroup :: "string option"

definition sizeMappingTable :: "(string \<times> mapping) list" where
  "sizeMappingTable =
    [(''35'',  \<lparr>sizeGroup = ''79x90'',  bleedWidth = 85.04, bleedHeight = 95.67, templateGroup = None\<rparr>),
     (''55'',  \<lparr>sizeGroup = ''79x91'',  bleedWidth = 85.04, bleedHeight = 97.09, templateGroup = None\<rparr>),
     (''75'',  \<lparr>sizeGroup = ''79x94'',  bleedWidth = 85.04, bleedHeight = 99.21, templateGroup = None\<rparr>),
     (''100'', \<lparr>sizeGroup = ''79x95'',  bleedWidth = 85.04, bleedHeight = 100.63, templateGroup = None\<rparr>),
     (''130'', \<lparr>sizeGroup = ''79x98'',  bleedWidth = 85.04, bleedHeight = 103.46, templateGroup = None\<rparr>),
     (''180'', \<lparr>sizeGroup = ''79x101'', bleedWidth = 85.04, bleedHeight = 106.30, templateGroup = None\<rparr>),
     (''54x72'', \<lparr>sizeGroup = ''54x72'', bleedWidth = 57, bleedHeight = 75, templateGroup = Some ''Top Loader''\<rparr>),
     (''toploader-narrow'', \<lparr>sizeGroup = ''54x72'', bleedWidth = 57, bleedHeight = 75, templateGroup = Some ''Top Loader''\<rparr>),
     (''76x102'', \<lparr>sizeGroup = ''76x102'', bleedWidth = 79, bleedHeight = 105, templateGroup = Some ''Top Loader''\<rparr>),
     (''64x79'', \<lparr>sizeGroup = ''64x79'', bleedWidth = 67, bleedHeight = 82, templateGroup = Some ''Top Loader''\<rparr>),
     (''toploader-wide'', \<lparr>sizeGroup = ''76x102'', bleedWidth = 79, bleedHeight = 105, templateGroup = Some ''Top Loader''\<rparr>)]"

text \<open>
  \<open>CONFIG.sizeMapping[layerName]\<close>, on the table's own keys. Names that a JavaScript object
  inherits from its prototype (such as \<open>toString\<close>) are not modelled.
\<close>

definition sizeMapping :: "string \<Rightarrow> mapping option" where
  "sizeMapping = map_of sizeMappingTable"

definition exportPPI :: rat where
  "exportPPI = 1400"

definition cutContourPatterns :: "string list" where
  "cutContourPatterns =
    [''cutcontour'', ''cut contour'', ''dieline'', ''die line'', ''diecut'', ''die cut'',
     ''kiss cut'', ''kisscut'', ''contour'', ''thru-cut'', ''thru cut'', ''throughcut'',
     ''through cut'', ''perf'', ''score'']"

section \<open>The document: layers and a tree of page items\<close>

datatype item_type = PathItem | CompoundPathItem | GroupItem | OtherItem

text \<open>A property read that may throw: \<open>Inl\<close> is the exception.\<close>

datatype error = ReadFault

type_synonym 'a read = "error + 'a"

text \<open>
  A colour object: a spot colour, whose \<open>spot.name\<close> is read in turn, or any other
  colour model.
\<close>

datatype color = SpotColor "string read" | OtherColor

text \<open>
  The properties of a page item that the script reads and never writes. \<open>strokeColor\<close>
  and \<open>fillColor\<close> read as an exception, a falsy value (\<open>None\<close>) or a colour object;
  \<open>geometricBounds\<close> as an exception or \<open>[left, top, right, bottom]\<close>.
\<close>

record attrs =
  name :: string
  typename :: item_type
  stroked :: bool
  strokeColor :: "color option read"
  filled :: bool
  fillColor :: "color option read"
  geometricBounds :: "(rat \<times> rat \<times> rat \<times> rat) read"

datatype item = Item (attrs: attrs) (hidden: bool) (pageItems: "item list")

record layer =
  layer_name :: string
  visible :: bool
  layer_pageItems :: "item list"

record document =
  layers :: "layer list"

section \<open>Product type detection\<close>

definition oneTouchLayers :: "string list" where
  "oneTouchLayers = [''35'', ''55'', ''75'', ''100'', ''130'', ''180'']"

text \<open>The three checks of the loop body of \<open>detectProductType\<close>, on the normalised name.\<close>

definition isOneTouchName :: "string \<Rightarrow> bool" where
  "isOneTouchName layerName = (layerName \<in> set oneTouchLayers \<or> match79x layerName)"

definition isTopLoaderNarrowName :: "string \<Rightarrow> bool" where
  "isTopLoaderNarrowName layerName =
     (layerName = ''54x72'' \<or> layerName = ''toploader-narrow'' \<or> layerName = ''toploader_narrow'')"

definition isTopLoaderWideName :: "string \<Rightarrow> bool" where
  "isTopLoaderWideName layerName =
     (layerName = ''76x102'' \<or> layerName = ''64x79'' \<or> layerName = ''toploader-wide'' \<or>
      layerName = ''toploader_wide'')"

record detect_flags =
  hasOneTouch :: bool
  hasTopLoaderNarrow :: bool
  hasTopLoaderWide :: bool

definition detectStep :: "detect_flags \<Rightarrow> layer \<Rightarrow> detect_flags" where
  "detectStep f l =
     (let layerName = toLowerCase (trim (layer_name l));
          f1 = (if isOneTouchName layerName then f\<lparr>hasOneTouch := True\<rparr> else f);
          f2 = (if isTopLoaderNarrowName layerName then f1\<lparr>hasTopLoaderNarrow := True\<rparr> else f1);
          f3 = (if isTopLoaderWideName layerName then f2\<lparr>hasTopLoaderWide := True\<rparr> else f2)
      in f3)"

definition detectProductType :: "document \<Rightarrow> string option" where
  "detectProductType doc =
     (let f = foldl detectStep
                \<lparr>hasOneTouch = False, hasTopLoaderNarrow = False, hasTopLoaderWide = False\<rparr>
                (layers doc)
      in if hasTopLoaderNarrow f \<and> \<not> hasTopLoaderWide f \<and> \<not> hasOneTouch f
           then Some ''toploader-narrow''
         else if hasTopLoaderWide f \<and> \<not> hasTopLoaderNarrow f \<and> \<not> hasOneTouch f
           then Some ''toploader-wide''
         else if hasOneTouch f \<and> \<not> hasTopLoaderNarrow f \<and> \<not> hasTopLoaderWide f
           then Some ''onetouch''
         else None)"

section \<open>Cut contour classification\<close>

fun matchesAnyPattern :: "string \<Rightarrow> string list \<Rightarrow> bool" where
  "matchesAnyPattern lowerName [] = False"
| "matchesAnyPattern lowerName (p # ps) =
     (if indexOf lowerName p \<ge> 0 then True else matchesAnyPattern lowerName ps)"

definition isCutContourName :: "string \<Rightarrow> bool" where
  "isCutContourName nm =
     (if nm = [] then False else matchesAnyPattern (toLowerCase nm) cutContourPatterns)"

text \<open>
  One of the two colour checks of \<open>shouldHideItem\<close>, for the stroke or the fill: the flag
  (\<open>item.stroked\<close>, \<open>item.filled\<close>) short-circuits the colour read. \<open>Inr True\<close> is the
  \<open>return true\<close>, \<open>Inr False\<close> falls through, \<open>Inl\<close> is a thrown exception.
\<close>

definition colorCheck :: "bool \<Rightarrow> color option read \<Rightarrow> bool read" where
  "colorCheck flag c =
     (if flag then
        (case c of
           Inl e \<Rightarrow> Inl e
         | Inr None \<Rightarrow> Inr False
         | Inr (Some OtherColor) \<Rightarrow> Inr False
         | Inr (Some (SpotColor (Inl e))) \<Rightarrow> Inl e
         | Inr (Some (SpotColor (Inr nm))) \<Rightarrow> Inr (isCutContourName nm))
      else Inr False)"

text \<open>The body of the \<open>try\<close> block of \<open>shouldHideItem\<close>.\<close>

definition colorRule :: "item \<Rightarrow> bool read" where
  "colorRule it =
     (if typename (attrs it) = PathItem \<or> typename (attrs it) = CompoundPathItem then
        (case colorCheck (stroked (attrs it)) (strokeColor (attrs it)) of
           Inl e \<Rightarrow> Inl e
         | Inr True \<Rightarrow> Inr True
         | Inr False \<Rightarrow> colorCheck (filled (attrs it)) (fillColor (attrs it)))
      else Inr False)"

definition shouldHideItem :: "item \<Rightarrow> bool" where
  "shouldHideItem it =
     (if name (attrs it) \<noteq> [] \<and> isCutContourName (name (attrs it)) then True
      else (case colorRule it of
              Inr True \<Rightarrow> True
            | _ \<Rightarrow>
              (if typename (attrs it) = GroupItem \<and> name (attrs it) \<noteq> [] \<and>
                  isCutContourName (name (attrs it))
               then True
               else False)))"

section \<open>Hiding and restoring cut contour items\<close>

text \<open>
  The script keeps references to page items in \<open>hiddenItems\<close>. A reference is modelled as
  the item's path: the indices to follow from the layer's \<open>pageItems\<close> down to the item.
\<close>

type_synonym path = "nat list"

definition setHidden :: "bool \<Rightarrow> item \<Rightarrow> item" where  \<comment> \<open>\<open>item.hidden = b\<close>\<close>
  "setHidden b it = Item (attrs it) b (pageItems it)"

definition setPageItems :: "item list \<Rightarrow> item \<Rightarrow> item" where
  "setPageItems cs it = Item (attrs it) (hidden it) cs"

text \<open>
  \<open>hideAllCutContourItemsInGroup\<close>: the loop over \<open>group.pageItems\<close> from index \<open>i\<close> on, for
  the group at path \<open>p\<close>, and the loop's body for the item at path \<open>q\<close>. Both return the
  items as the loop leaves them, and the ledger.
\<close>

fun hideAllCutContourItemsInGroup ::
    "path \<Rightarrow> nat \<Rightarrow> item list \<Rightarrow> path list \<Rightarrow> item list \<times> path list"
  and hideInGroupBody :: "path \<Rightarrow> item \<Rightarrow> path list \<Rightarrow> item \<times> path list" where
  "hideAllCutContourItemsInGroup p i [] hiddenItems = ([], hiddenItems)"
| "hideAllCutContourItemsInGroup p i (x # xs) hiddenItems =
     (let (x', h1) = hideInGroupBody (p @ [i]) x hiddenItems;
          (xs', h2) = hideAllCutContourItemsInGroup p (Suc i) xs h1
      in (x' # xs', h2))"
| "hideInGroupBody q (Item a h cs) hiddenItems =
     (if h then (Item a h cs, hiddenItems)
      else if shouldHideItem (Item a h cs) then (Item a True cs, hiddenItems @ [q])
      else if typename a = GroupItem then
        (let (cs', h') = hideAllCutContourItemsInGroup q 0 cs hiddenItems
         in (Item a h cs', h'))
      else (Item a h cs, hiddenItems))"

text \<open>
  \<open>hideAllCutContourItems\<close>: the same loop over the layer's \<open>pageItems\<close>; its body hands
  a group to \<open>hideAllCutContourItemsInGroup\<close>.
\<close>

definition hideBody :: "path \<Rightarrow> item \<Rightarrow> path list \<Rightarrow> item \<times> path list" where
  "hideBody q it hiddenItems =
     (if hidden it then (it, hiddenItems)
      else if shouldHideItem it then (setHidden True it, hiddenItems @ [q])
      else if typename (attrs it) = GroupItem then
        (let (cs', h') = hideAllCutContourItemsInGroup q 0 (pageItems it) hiddenItems
         in (setPageItems cs' it, h'))
      else (it, hiddenItems))"

fun hideAllCutContourItemsFrom ::
    "nat \<Rightarrow> item list \<Rightarrow> path list \<Rightarrow> item list \<times> path list" where
  "hideAllCutContourItemsFrom i [] hiddenItems = ([], hiddenItems)"
| "hideAllCutContourItemsFrom i (x # xs) hiddenItems =
     (let (x', h1) = hideBody [i] x hiddenItems;
          (xs', h2) = hideAllCutContourItemsFrom (Suc i) xs h1
      in (x' # xs', h2))"

definition hideAllCutContourItems :: "item list \<Rightarrow> path list \<Rightarrow> item list \<times> path list" where
  "hideAllCutContourItems items hiddenItems = hideAllCutContourItemsFrom 0 items hiddenItems"

text \<open>\<open>items[i].hidden = b\<close> for the reference \<open>items[i]\<close> given as a path.\<close>

fun setHiddenAt :: "path \<Rightarrow> bool \<Rightarrow> item list \<Rightarrow> item list" where
  "setHiddenAt [] b xs = xs"
| "setHiddenAt [k] b xs = (if k < length xs then xs[k := setHidden b (xs ! k)] else xs)"
| "setHiddenAt (k # q) b xs =
     (if k < length xs
      then xs[k := setPageItems (setHiddenAt q b (pageItems (xs ! k))) (xs ! k)]
      else xs)"

fun restoreItems :: "path list \<Rightarrow> item list \<Rightarrow> item list" where
  "restoreItems [] xs = xs"
| "restoreItems (p # ps) xs = restoreItems ps (setHiddenAt p False xs)"

text \<open>The item a path refers to.\<close>

fun itemAt :: "path \<Rightarrow> item list \<Rightarrow> item option" where
  "itemAt [] xs = None"
| "itemAt [k] xs = (if k < length xs then Some (xs ! k) else None)"
| "itemAt (k # q) xs = (if k < length xs then itemAt q (pageItems (xs ! k)) else None)"

section \<open>Bounds of a layer\<close>

record boundsObj =
  leftB :: jsnum
  topB :: jsnum
  rightB :: jsnum
  bottomB :: jsnum

text \<open>The body of the loop of \<open>collectBoundsRecursive\<close>.\<close>

definition collectBoundsStep :: "boundsObj \<Rightarrow> item \<Rightarrow> boundsObj" where
  "collectBoundsStep bo it =
     (if hidden it then bo
      else (case geometricBounds (attrs it) of
              Inl e \<Rightarrow> bo
            | Inr (b0, b1, b2, b3) \<Rightarrow>
                (let bo1 = (if lt (Fin b0) (leftB bo) then bo\<lparr>leftB := Fin b0\<rparr> else bo);
                     bo2 = (if gt (Fin b1) (topB bo1) then bo1\<lparr>topB := Fin b1\<rparr> else bo1);
                     bo3 = (if gt (Fin b2) (rightB bo2) then bo2\<lparr>rightB := Fin b2\<rparr> else bo2);
                     bo4 = (if lt (Fin b3) (bottomB bo3) then bo3\<lparr>bottomB := Fin b3\<rparr> else bo3)
                 in bo4)))"

fun collectBoundsRecursive :: "item list \<Rightarrow> boundsObj \<Rightarrow> boundsObj" where
  "collectBoundsRecursive [] bo = bo"
| "collectBoundsRecursive (it # its) bo = collectBoundsRecursive its (collectBoundsStep bo it)"

definition getLayerBounds :: "item list \<Rightarrow> (jsnum \<times> jsnum \<times> jsnum \<times> jsnum) option" where
  "getLayerBounds items =
     (if length items = 0 then None
      else (let bo = collectBoundsRecursive items
                       \<lparr>leftB = PosInf, topB = NegInf, rightB = NegInf, bottomB = PosInf\<rparr>
            in if leftB bo = PosInf then None
               else Some (leftB bo, topB bo, rightB bo, bottomB bo)))"

section \<open>The export run\<close>

text \<open>Lines 293 to 312 of \<open>exportByLayers\<close>: what a trimmed layer name resolves to.\<close>

datatype size_resolution =
    Resolved string jsnum jsnum  \<comment> \<open>\<open>outputName\<close>, \<open>bleedWidth\<close>, \<open>bleedHeight\<close>\<close>
  | UnknownNumeric               \<comment> \<open>skipped with a warning\<close>
  | NotApplicable                \<comment> \<open>skipped silently\<close>

definition parsePart :: "string list \<Rightarrow> nat \<Rightarrow> jsnum" where  \<comment> \<open>\<open>parseFloat(parts[k])\<close>\<close>
  "parsePart parts k = (if k < length parts then parseFloat (parts ! k) else NaN)"

definition resolveSize :: "string \<Rightarrow> size_resolution" where
  "resolveSize layerName =
     (case sizeMapping layerName of
        Some m \<Rightarrow> Resolved (sizeGroup m) (Fin (bleedWidth m)) (Fin (bleedHeight m))
      | None \<Rightarrow>
          if matchWxH layerName then
            (let parts = split CHR ''x'' layerName
             in Resolved layerName (add (parsePart parts 0) (Fin 6)) (add (parsePart parts 1) (Fin 6)))
          else if matchDigits layerName then UnknownNumeric
          else NotApplicable)"

text \<open>
  A request to the renderer (\<open>doc.exportFile\<close>): the file, the active artboard, the scale,
  and the layers as the document holds them at that moment.
\<close>

record request =
  filename :: string
  artboardRect :: "jsnum \<times> jsnum \<times> jsnum \<times> jsnum"
  scale :: rat
  shown :: "layer list"

text \<open>
  The lines pushed to \<open>results\<close>: \<open>name -> output.png (WxHpt with bleed)\<close>,
  \<open>name: SKIPPED (not in size mapping)\<close> and \<open>name: SKIPPED (empty layer)\<close>.
\<close>

datatype detail =
    ExportedLine string string jsnum jsnum
  | SkippedNotInMapping string
  | SkippedEmpty string

record export_state =
  doc :: document
  exported :: nat
  results :: "detail list"
  hiddenItemsTotal :: nat
  requests :: "(request \<times> bool) list"

definition setOnlyVisible :: "nat \<Rightarrow> layer list \<Rightarrow> layer list" where
  "setOnlyVisible i ls = map (\<lambda>(j, l). l\<lparr>visible := (j = i)\<rparr>) (enumerate 0 ls)"

definition setLayerItems :: "nat \<Rightarrow> item list \<Rightarrow> layer list \<Rightarrow> layer list" where
  "setLayerItems i items ls = ls[i := (ls ! i)\<lparr>layer_pageItems := items\<rparr>]"

text \<open>
  One round of the main loop of \<open>exportByLayers\<close>, for layer \<open>i\<close>. The renderer is a
  parameter; it answers a request with a status, which the script does not look at.
\<close>

definition exportLayer :: "(request \<Rightarrow> bool) \<Rightarrow> export_state \<Rightarrow> nat \<Rightarrow> export_state" where
  "exportLayer render st i =
     (let ls = layers (doc st);
          layerName = trim (layer_name (ls ! i))
      in case resolveSize layerName of
           NotApplicable \<Rightarrow> st
         | UnknownNumeric \<Rightarrow> st\<lparr>results := results st @ [SkippedNotInMapping layerName]\<rparr>
         | Resolved outputName bleedW bleedH \<Rightarrow>
             (let ls1 = setOnlyVisible i ls;
                  (items', hiddenItems) = hideAllCutContourItems (layer_pageItems (ls1 ! i)) [];
                  ls2 = setLayerItems i items' ls1;
                  total = hiddenItemsTotal st + length hiddenItems
              in case getLayerBounds items' of
                   None \<Rightarrow>
                     st\<lparr>doc := \<lparr>layers = setLayerItems i (restoreItems hiddenItems items') ls2\<rparr>,
                        results := results st @ [SkippedEmpty layerName],
                        hiddenItemsTotal := total\<rparr>
                 | Some (c0, c1, c2, c3) \<Rightarrow>
                     (let centerX = half (add c0 c2);
                          centerY = half (add c1 c3);
                          rect = (sub centerX (half bleedW), add centerY (half bleedH),
                                  add centerX (half bleedW), sub centerY (half bleedH));
                          req = \<lparr>filename = outputName @ ''.png'', artboardRect = rect,
                                 scale = (exportPPI / 72) * 100, shown = ls2\<rparr>;
                          status = render req
                      in st\<lparr>doc := \<lparr>layers = setLayerItems i (restoreItems hiddenItems items') ls2\<rparr>,
                            exported := exported st + 1,
                            results := results st @ [ExportedLine layerName outputName bleedW bleedH],
                            hiddenItemsTotal := total,
                            requests := requests st @ [(req, status)]\<rparr>)))"

definition restoreVisibility :: "bool list \<Rightarrow> layer list \<Rightarrow> layer list" where
  "restoreVisibility originalVisibility ls =
     map (\<lambda>(l, v). l\<lparr>visible := v\<rparr>) (zip ls originalVisibility)"

text \<open>
  \<open>exportByLayers\<close>: the state after the run. Its \<open>exported\<close>, \<open>hiddenItemsTotal\<close> and
  \<open>results\<close> are the returned object, \<open>doc\<close> is the document as the run leaves it and
  \<open>requests\<close> lists the calls of the renderer with the status each returned.
\<close>

definition exportByLayers :: "(request \<Rightarrow> bool) \<Rightarrow> document \<Rightarrow> export_state" where
  "exportByLayers render d =
     (let originalVisibility = map visible (layers d);
          st0 = \<lparr>doc = d, exported = 0, results = [], hiddenItemsTotal = 0, requests = []\<rparr>;
          st = foldl (exportLayer render) st0 [0..<length (layers d)]
      in st\<lparr>doc := \<lparr>layers = restoreVisibility originalVisibility (layers (doc st))\<rparr>\<rparr>)"

section \<open>Auxiliary notions for the statements\<close>

text \<open>Whether some layer of the document has a normalised name of a given family.\<close>

definition familyPresent :: "(string \<Rightarrow> bool) \<Rightarrow> document \<Rightarrow> bool" where
  "familyPresent fam d = list_ex (\<lambda>l. fam (toLowerCase (trim (layer_name l)))) (layers d)"

text \<open>A colour read that is no spot colour, or a spot colour of the given name.\<close>

definition noSpotBut :: "string \<Rightarrow> color option read \<Rightarrow> bool" where
  "noSpotBut n c =
     (case c of
        Inr (Some (SpotColor (Inr nm))) \<Rightarrow> nm = n
      | _ \<Rightarrow> True)"

text \<open>
  What the traversal does to one item, and the paths it appends for it: the two
  components of the loop body started on an empty ledger.
\<close>

definition hiddenItem :: "item \<Rightarrow> item" where
  "hiddenItem c = fst (hideInGroupBody [] c [])"

definition ledgerOfItem :: "path \<Rightarrow> item \<Rightarrow> path list" where
  "ledgerOfItem q c = snd (hideInGroupBody q c [])"

definition ledgerOfItems :: "path \<Rightarrow> nat \<Rightarrow> item list \<Rightarrow> path list" where
  "ledgerOfItems p i xs = concat (map (\<lambda>(k, c). ledgerOfItem (p @ [k]) c) (enumerate i xs))"

text \<open>
  The traversal runs its loop body on the item at a path: every item above it is a
  group that was neither hidden nor classified as cut contour.
\<close>

fun visited :: "path \<Rightarrow> item list \<Rightarrow> bool" where
  "visited [] xs = False"
| "visited [k] xs = (k < length xs)"
| "visited (k # q) xs =
     (k < length xs \<and> \<not> hidden (xs ! k) \<and> \<not> shouldHideItem (xs ! k) \<and>
      typename (attrs (xs ! k)) = GroupItem \<and> visited q (pageItems (xs ! k)))"

text \<open>
  The box an item adds to the bounds of its layer: none when the item is hidden or its
  geometry cannot be read.
\<close>

definition contribution :: "item \<Rightarrow> (rat \<times> rat \<times> rat \<times> rat) option" where
  "contribution it =
     (if hidden it then None
      else (case geometricBounds (attrs it) of Inl e \<Rightarrow> None | Inr b \<Rightarrow> Some b))"

fun unionBox :: "rat \<times> rat \<times> rat \<times> rat \<Rightarrow> rat \<times> rat \<times> rat \<times> rat \<Rightarrow> rat \<times> rat \<times> rat \<times> rat" where
  "unionBox (l, t, r, b) (b0, b1, b2, b3) = (min l b0, max t b1, max r b2, min b b3)"

fun jsBox :: "rat \<times> rat \<times> rat \<times> rat \<Rightarrow> jsnum \<times> jsnum \<times> jsnum \<times> jsnum" where
  "jsBox (l, t, r, b) = (Fin l, Fin t, Fin r, Fin b)"

fun rectWidth :: "jsnum \<times> jsnum \<times> jsnum \<times> jsnum \<Rightarrow> jsnum" where
  "rectWidth (l, t, r, b) = sub r l"

fun rectHeight :: "jsnum \<times> jsnum \<times> jsnum \<times> jsnum \<Rightarrow> jsnum" where
  "rectHeight (l, t, r, b) = sub t b"

text \<open>Two lists of layers that differ at most in the visible flags.\<close>

definition sameButVisible :: "layer list \<Rightarrow> layer list \<Rightarrow> bool" where
  "sameButVisible ls ls' = (map (\<lambda>l. l\<lparr>visible := True\<rparr>) ls = map (\<lambda>l. l\<lparr>visible := True\<rparr>) ls')"

text \<open>The bounds object \<open>getLayerBounds\<close> starts from, and the one for a box of numbers.\<close>

definition sentinel :: boundsObj where
  "sentinel = \<lparr>leftB = PosInf, topB = NegInf, rightB = NegInf, bottomB = PosInf\<rparr>"

fun boundsOf :: "rat \<times> rat \<times> rat \<times> rat \<Rightarrow> boundsObj" where
  "boundsOf (l, t, r, b) = \<lparr>leftB = Fin l, topB = Fin t, rightB = Fin r, bottomB = Fin b\<rparr>"

text \<open>What holds of every request of a run on the document \<open>d\<close>.\<close>

definition soleVisible :: "document \<Rightarrow> request \<Rightarrow> bool" where
  "soleVisible d r =
     (\<exists>i<length (layers d).
        map visible (shown r) = map (\<lambda>j. j = i) [0..<length (layers d)] \<and>
        (\<exists>outputName w h.
           resolveSize (trim (layer_name (layers d ! i))) = Resolved outputName w h \<and>
           filename r = outputName @ ''.png''))"

definition runInv :: "document \<Rightarrow> export_state \<Rightarrow> bool" where
  "runInv d st =
     (sameButVisible (layers (doc st)) (layers d) \<and>
      (\<forall>rs\<in>set (requests st). soleVisible d (fst rs)))"

section \<open>Sample items\<close>

definition plain :: "string \<Rightarrow> item_type \<Rightarrow> attrs" where
  "plain nm ty =
     \<lparr>name = nm, typename = ty, stroked = False, strokeColor = Inr None,
      filled = False, fillColor = Inr None, geometricBounds = Inr (0, 10, 10, 0)\<rparr>"

definition artPath :: item where
  "artPath = Item (plain ''art'' PathItem) False []"

definition cutPath :: item where
  "cutPath = Item (plain ''CutContour'' PathItem) False []"

definition oldPath :: item where
  "oldPath = Item (plain ''old dieline'' PathItem) True []"

definition artGroup :: item where
  "artGroup = Item (plain ''artwork'' GroupItem) False [artPath, cutPath, oldPath]"

definition dieGroup :: item where
  "dieGroup = Item (plain ''Die Line'' GroupItem) False [cutPath]"

definition notesGroup :: item where
  "notesGroup = Item (plain ''notes'' GroupItem) True [cutPath]"

definition sampleItems :: "item list" where
  "sampleItems = [artGroup, dieGroup, notesGroup]"

text \<open>
  A filled path whose stroke colour is a spot colour without a readable name, and a path
  whose geometry cannot be read.
\<close>

definition faultyStrokePath :: item where
  "faultyStrokePath =
     Item \<lparr>name = [], typename = PathItem, stroked = True,
           strokeColor = Inr (Some (SpotColor (Inl ReadFault))),
           filled = True, fillColor = Inr (Some (SpotColor (Inr ''Die Line''))),
           geometricBounds = Inr (0, 10, 10, 0)\<rparr> False []"

definition noGeometryPath :: item where
  "noGeometryPath =
     Item \<lparr>name = ''art'', typename = PathItem, stroked = True,
           strokeColor = Inl ReadFault, filled = False, fillColor = Inr None,
           geometricBounds = Inl ReadFault\<rparr> False []"

text \<open>A filled path with a spot colour, for each of the two spot colour names.\<close>

definition dieLineFill :: item where
  "dieLineFill =
     Item \<lparr>name = [], typename = PathItem, stroked = True,
           strokeColor = Inr (Some OtherColor),
           filled = True, fillColor = Inr (Some (SpotColor (Inr ''Die Line''))),
           geometricBounds = Inr (0, 10, 10, 0)\<rparr> False []"

definition backgroundFill :: item where
  "backgroundFill =
     Item \<lparr>name = ''card'', typename = PathItem, stroked = False,
           strokeColor = Inr None,
           filled = True, fillColor = Inr (Some (SpotColor (Inr ''Background''))),
           geometricBounds = Inr (0, 10, 10, 0)\<rparr> False []"

text \<open>The sample items as the traversal leaves them.\<close>

definition sampleHidden :: "item list" where
  "sampleHidden =
     [Item (plain ''artwork'' GroupItem) False
        [artPath, Item (plain ''CutContour'' PathItem) True [], oldPath],
      Item (plain ''Die Line'' GroupItem) True [cutPath],
      notesGroup]"

text \<open>
  A group whose own geometry cannot be read, holding a visible path; and a group whose
  own box spans its two children, a small path and a larger cut contour path.
\<close>

definition looseGroup :: item where
  "looseGroup =
     Item \<lparr>name = ''artwork'', typename = GroupItem, stroked = False, strokeColor = Inr None,
           filled = False, fillColor = Inr None, geometricBounds = Inl ReadFault\<rparr>
       False [artPath]"

definition wideGroup :: item where
  "wideGroup =
     Item \<lparr>name = ''artwork'', typename = GroupItem, stroked = False, strokeColor = Inr None,
           filled = False, fillColor = Inr None, geometricBounds = Inr (0, 100, 100, 0)\<rparr>
       False
       [Item \<lparr>name = ''art'', typename = PathItem, stroked = False, strokeColor = Inr None,
              filled = False, fillColor = Inr None, geometricBounds = Inr (10, 50, 50, 10)\<rparr>
          False [],
        Item \<lparr>name = ''CutContour'', typename = PathItem, stroked = False, strokeColor = Inr None,
              filled = False, fillColor = Inr None, geometricBounds = Inr (0, 100, 100, 0)\<rparr>
          False []]"

section \<open>Sample documents\<close>

definition narrowDoc :: document where
  "narrowDoc =
     \<lparr>layers = [\<lparr>layer_name = ''54x72'', visible = True, layer_pageItems = []\<rparr>,
                \<lparr>layer_name = '' TopLoader-Narrow '', visible = False, layer_pageItems = []\<rparr>]\<rparr>"

definition mixedDoc :: document where
  "mixedDoc =
     \<lparr>layers = [\<lparr>layer_name = ''35'', visible = True, layer_pageItems = []\<rparr>,
                \<lparr>layer_name = ''54x72'', visible = True, layer_pageItems = []\<rparr>]\<rparr>"



text \<open>A document whose first layer is hidden and is the only one with a size name.\<close>

definition twoLayerDoc :: document where
  "twoLayerDoc =
     \<lparr>layers = [\<lparr>layer_name = ''54x72'', visible = False, layer_pageItems = [artPath]\<rparr>,
                \<lparr>layer_name = ''notes'', visible = True, layer_pageItems = []\<rparr>]\<rparr>"

section \<open>Size resolution\<close>






lemma matchWxH_compose:
  assumes "matchDigits w" "matchDigits h"
  shows "matchWxH (w @ CHR ''x'' # h)"
proof -
  have nx: "\<not> isDigit (CHR ''x'')" by (simp add: isDigit_def)
  have all: "\<forall>c\<in>set w. isDigit c" using assms(1) by (simp add: matchDigits_def list_all_iff)
  have t: "takeWhile isDigit (w @ CHR ''x'' # h) = w"
    using all nx by (simp add: takeWhile_append2)
  have d: "dropWhile isDigit (w @ CHR ''x'' # h) = CHR ''x'' # h"
    using all nx by (simp add: dropWhile_append2)
  show ?thesis using assms t d by (simp add: matchWxH_def matchDigits_def)
qed



lemmas resolve_eval = resolveSize_def sizeMapping_def sizeMappingTable_def matchWxH_def
  matchDigits_def isDigit_def parsePart_def parseFloat_def decimal_def digitVal_def




section \<open>Product type detection is exclusive\<close>

lemma detect_fold:
  "hasOneTouch (foldl detectStep f ls) =
     (hasOneTouch f \<or> list_ex (\<lambda>l. isOneTouchName (toLowerCase (trim (layer_name l)))) ls)"
  "hasTopLoaderNarrow (foldl detectStep f ls) =
     (hasTopLoaderNarrow f \<or>
      list_ex (\<lambda>l. isTopLoaderNarrowName (toLowerCase (trim (layer_name l)))) ls)"
  "hasTopLoaderWide (foldl detectStep f ls) =
     (hasTopLoaderWide f \<or>
      list_ex (\<lambda>l. isTopLoaderWideName (toLowerCase (trim (layer_name l)))) ls)"
  by (induction ls arbitrary: f; simp add: detectStep_def Let_def; blast)+

text \<open>
  C10. \<open>detectProductType\<close> names a product type exactly when the layer names match that
  family and neither of the other two; when two or more families occur together, or
  none does, it returns null.
\<close>

theorem C10_detectProductType_exclusive:
  "(detectProductType d = Some ''toploader-narrow'' \<longleftrightarrow>
      familyPresent isTopLoaderNarrowName d \<and> \<not> familyPresent isTopLoaderWideName d \<and>
      \<not> familyPresent isOneTouchName d) \<and>
   (detectProductType d = Some ''toploader-wide'' \<longleftrightarrow>
      familyPresent isTopLoaderWideName d \<and> \<not> familyPresent isTopLoaderNarrowName d \<and>
      \<not> familyPresent isOneTouchName d) \<and>
   (detectProductType d = Some ''onetouch'' \<longleftrightarrow>
      familyPresent isOneTouchName d \<and> \<not> familyPresent isTopLoaderNarrowName d \<and>
      \<not> familyPresent isTopLoaderWideName d) \<and>
   (detectProductType d = None \<longleftrightarrow>
      (familyPresent isTopLoaderNarrowName d \<and> familyPresent isTopLoaderWideName d) \<or>
      (familyPresent isTopLoaderNarrowName d \<and> familyPresent isOneTouchName d) \<or>
      (familyPresent isTopLoaderWideName d \<and> familyPresent isOneTouchName d) \<or>
      (\<not> familyPresent isTopLoaderNarrowName d \<and> \<not> familyPresent isTopLoaderWideName d \<and>
       \<not> familyPresent isOneTouchName d))"
  by (auto simp: detectProductType_def Let_def detect_fold familyPresent_def)

lemmas family_eval = familyPresent_def isTopLoaderNarrowName_def isTopLoaderWideName_def
  isOneTouchName_def oneTouchLayers_def match79x_def matchDigits_def isDigit_def
  toLowerCase_def toLowerChar_def trim_def isSpace_def

lemma narrowDoc_families:
  "familyPresent isTopLoaderNarrowName narrowDoc"
  "\<not> familyPresent isTopLoaderWideName narrowDoc"
  "\<not> familyPresent isOneTouchName narrowDoc"
  by (simp_all add: narrowDoc_def family_eval)

lemma mixedDoc_families:
  "familyPresent isTopLoaderNarrowName mixedDoc"
  "familyPresent isOneTouchName mixedDoc"
  by (simp_all add: mixedDoc_def family_eval)

theorem C10_detectProductType_exclusive_witness:
  "detectProductType narrowDoc = Some ''toploader-narrow'' \<and> detectProductType mixedDoc = None"
proof -
  have 1: "detectProductType narrowDoc = Some ''toploader-narrow''"
    using C10_detectProductType_exclusive[of narrowDoc] narrowDoc_families by blast
  have 2: "detectProductType mixedDoc = None"
    using C10_detectProductType_exclusive[of mixedDoc] mixedDoc_families by blast
  from 1 2 show ?thesis by blast
qed

section \<open>The cut contour classifier\<close>

lemmas string_eval = isCutContourName_def toLowerCase_def toLowerChar_def indexOf_def
  cutContourPatterns_def

lemma name_samples:
  "isCutContourName ''CutContour_35''"
  "isCutContourName ''Die Line''"
  "\<not> isCutContourName ''Background''"
  "isCutContourName ''CutContour''"
  "isCutContourName ''old dieline''"
  "\<not> isCutContourName ''art''"
  "\<not> isCutContourName ''artwork''"
  "\<not> isCutContourName ''notes''"
  "\<not> isCutContourName ''card''"
  by (simp_all add: string_eval)

lemma isCutContourName_empty: "\<not> isCutContourName []"
  by (simp add: isCutContourName_def)

lemma shouldHideItem_name: "isCutContourName (name (attrs it)) \<Longrightarrow> shouldHideItem it"
  by (auto simp: shouldHideItem_def isCutContourName_def)

lemma shouldHideItem_unnamed:
  "\<not> isCutContourName (name (attrs it)) \<Longrightarrow> shouldHideItem it = (colorRule it = Inr True)"
  by (auto simp: shouldHideItem_def split: sum.splits bool.splits)

lemma shouldHideItem_group:
  "typename (attrs g) = GroupItem \<Longrightarrow> shouldHideItem g = isCutContourName (name (attrs g))"
  by (auto simp: shouldHideItem_def colorRule_def isCutContourName_def)

lemma shouldHideItem_plain: "shouldHideItem (Item (plain nm ty) h cs) = isCutContourName nm"
  by (auto simp: shouldHideItem_def colorRule_def colorCheck_def plain_def isCutContourName_def)

lemma colorCheck_noSpotBut:
  "noSpotBut n c \<Longrightarrow> \<not> isCutContourName n \<Longrightarrow> colorCheck flag c \<noteq> Inr True"
  by (auto simp: colorCheck_def noSpotBut_def split: sum.splits option.splits color.splits)

text \<open>
  C7, as amended. The classifier returns true for any item named \<open>CutContour_35\<close>. It
  returns true for an unnamed path item filled with a spot colour named \<open>Die Line\<close>,
  provided that inspecting the item's stroke colour raises no error. It returns false
  for a path item whose name matches no pattern and whose spot colours, if any, are
  named \<open>Background\<close>.
\<close>

theorem C7_classifier:
  "(name (attrs it) = ''CutContour_35'' \<longrightarrow> shouldHideItem it) \<and>
   (name (attrs it) = [] \<and> typename (attrs it) = PathItem \<and> filled (attrs it) \<and>
    fillColor (attrs it) = Inr (Some (SpotColor (Inr ''Die Line''))) \<and>
    colorCheck (stroked (attrs it)) (strokeColor (attrs it)) = Inr b \<longrightarrow> shouldHideItem it) \<and>
   (typename (attrs it) = PathItem \<and> \<not> isCutContourName (name (attrs it)) \<and>
    noSpotBut ''Background'' (strokeColor (attrs it)) \<and>
    noSpotBut ''Background'' (fillColor (attrs it)) \<longrightarrow> \<not> shouldHideItem it)"
proof (intro conjI impI)
  assume "name (attrs it) = ''CutContour_35''"
  then show "shouldHideItem it" by (simp add: shouldHideItem_name name_samples)
next
  assume a: "name (attrs it) = [] \<and> typename (attrs it) = PathItem \<and> filled (attrs it) \<and>
    fillColor (attrs it) = Inr (Some (SpotColor (Inr ''Die Line''))) \<and>
    colorCheck (stroked (attrs it)) (strokeColor (attrs it)) = Inr b"
  then have "colorCheck (filled (attrs it)) (fillColor (attrs it)) = Inr True"
    by (simp add: colorCheck_def name_samples)
  with a have "colorRule it = Inr True" by (cases b) (simp_all add: colorRule_def)
  with a show "shouldHideItem it"
    by (simp add: shouldHideItem_unnamed isCutContourName_empty)
next
  assume a: "typename (attrs it) = PathItem \<and> \<not> isCutContourName (name (attrs it)) \<and>
    noSpotBut ''Background'' (strokeColor (attrs it)) \<and>
    noSpotBut ''Background'' (fillColor (attrs it))"
  then have s: "colorCheck (stroked (attrs it)) (strokeColor (attrs it)) \<noteq> Inr True"
    and f: "colorCheck (filled (attrs it)) (fillColor (attrs it)) \<noteq> Inr True"
    using colorCheck_noSpotBut[OF _ name_samples(3)] by blast+
  have "colorRule it \<noteq> Inr True"
    using a s f by (auto simp: colorRule_def split: sum.splits bool.splits)
  with a show "\<not> shouldHideItem it" by (simp add: shouldHideItem_unnamed)
qed

theorem C7_classifier_witness:
  "shouldHideItem (Item (plain ''CutContour_35'' OtherItem) False []) \<and>
   shouldHideItem dieLineFill \<and> \<not> shouldHideItem backgroundFill"
proof -
  have 1: "shouldHideItem (Item (plain ''CutContour_35'' OtherItem) False [])"
    using C7_classifier[of "Item (plain ''CutContour_35'' OtherItem) False []" False]
    by (simp add: plain_def)
  have "colorCheck (stroked (attrs dieLineFill)) (strokeColor (attrs dieLineFill)) = Inr False"
    by (simp add: dieLineFill_def colorCheck_def)
  then have 2: "shouldHideItem dieLineFill"
    using C7_classifier[of dieLineFill False] by (simp add: dieLineFill_def)
  have "\<not> isCutContourName (name (attrs backgroundFill))"
    by (simp add: backgroundFill_def name_samples)
  then have 3: "\<not> shouldHideItem backgroundFill"
    using C7_classifier[of backgroundFill False]
    by (simp add: backgroundFill_def noSpotBut_def)
  from 1 2 3 show ?thesis by blast
qed

text \<open>
  The claim as stated fails where the stroke colour is a spot colour whose name cannot
  be read: the exception ends the \<open>try\<close> block before the fill is inspected.
\<close>

theorem C7_counterexample:
  "name (attrs faultyStrokePath) = [] \<and> typename (attrs faultyStrokePath) = PathItem \<and>
   filled (attrs faultyStrokePath) \<and>
   fillColor (attrs faultyStrokePath) = Inr (Some (SpotColor (Inr ''Die Line''))) \<and>
   \<not> shouldHideItem faultyStrokePath"
  by (simp add: faultyStrokePath_def shouldHideItem_def colorRule_def colorCheck_def)

section \<open>The hide traversal and its ledger\<close>

lemma hide_list_aux:
  assumes "\<And>c q L. c \<in> set xs \<Longrightarrow> hideInGroupBody q c L = (hiddenItem c, L @ ledgerOfItem q c)"
  shows "hideAllCutContourItemsInGroup p i xs L = (map hiddenItem xs, L @ ledgerOfItems p i xs)"
  using assms by (induction xs arbitrary: i L) (simp_all add: ledgerOfItems_def)

lemma hide_body_char:
  "hideInGroupBody q it L = (hiddenItem it, L @ ledgerOfItem q it)"
proof (induction it arbitrary: q L)
  case (Item a h cs)
  have cs: "\<And>p i L. hideAllCutContourItemsInGroup p i cs L = (map hiddenItem cs, L @ ledgerOfItems p i cs)"
    by (rule hide_list_aux) (rule Item.IH)
  show ?case
    by (simp add: hiddenItem_def[of "Item a h cs"] ledgerOfItem_def[of _ "Item a h cs"] cs)
qed

lemma hide_list_char:
  "hideAllCutContourItemsInGroup p i xs L = (map hiddenItem xs, L @ ledgerOfItems p i xs)"
  by (rule hide_list_aux) (rule hide_body_char)

lemma hiddenItem_simps:
  "hiddenItem (Item a h cs) =
     (if h then Item a h cs
      else if shouldHideItem (Item a h cs) then Item a True cs
      else if typename a = GroupItem then Item a h (map hiddenItem cs)
      else Item a h cs)"
  by (simp add: hiddenItem_def[of "Item a h cs"] hide_list_char)

lemma ledgerOfItem_simps:
  "ledgerOfItem q (Item a h cs) =
     (if h then []
      else if shouldHideItem (Item a h cs) then [q]
      else if typename a = GroupItem then ledgerOfItems q 0 cs
      else [])"
  by (simp add: ledgerOfItem_def[of _ "Item a h cs"] hide_list_char)

lemma ledgerOfItems_simps:
  "ledgerOfItems p i [] = []"
  "ledgerOfItems p i (x # xs) = ledgerOfItem (p @ [i]) x @ ledgerOfItems p (Suc i) xs"
  by (simp_all add: ledgerOfItems_def)

lemma hideBody_eq: "hideBody q it L = hideInGroupBody q it L"
  by (cases it) (simp add: hideBody_def setHidden_def setPageItems_def)

lemma hideFrom_eq: "hideAllCutContourItemsFrom i xs L = hideAllCutContourItemsInGroup [] i xs L"
  by (induction xs arbitrary: i L) (simp_all add: hideBody_eq)

lemma hideAll_char:
  "hideAllCutContourItems xs L = (map hiddenItem xs, L @ ledgerOfItems [] 0 xs)"
  by (simp add: hideAllCutContourItems_def hideFrom_eq hide_list_char)

lemma ledger_shift_list_aux:
  assumes "\<And>c q. c \<in> set xs \<Longrightarrow> ledgerOfItem (p @ q) c = map ((@) p) (ledgerOfItem q c)"
  shows "ledgerOfItems (p @ q) i xs = map ((@) p) (ledgerOfItems q i xs)"
  using assms by (induction xs arbitrary: i) (simp_all add: ledgerOfItems_simps)

lemma ledgerOfItem_shift: "ledgerOfItem (p @ q) it = map ((@) p) (ledgerOfItem q it)"
proof (induction it arbitrary: q)
  case (Item a h cs)
  have "ledgerOfItems (p @ q) 0 cs = map ((@) p) (ledgerOfItems q 0 cs)"
    by (rule ledger_shift_list_aux) (rule Item.IH)
  then show ?case by (simp add: ledgerOfItem_simps)
qed

lemma ledgerOfItems_shift: "ledgerOfItems (p @ q) i xs = map ((@) p) (ledgerOfItems q i xs)"
  by (rule ledger_shift_list_aux) (rule ledgerOfItem_shift)

lemma ledgerOfItems_Cons: "ledgerOfItems (k # q) i xs = map ((#) k) (ledgerOfItems q i xs)"
  using ledgerOfItems_shift[of "[k]" q i xs] by simp

lemma ledgerOfItems_nonempty: "r \<in> set (ledgerOfItems p i xs) \<Longrightarrow> r \<noteq> []"
proof (induction xs arbitrary: i)
  case Nil
  then show ?case by (simp add: ledgerOfItems_simps)
next
  case (Cons x xs)
  have "ledgerOfItem (p @ [i]) x = map ((@) (p @ [i])) (ledgerOfItem [] x)"
    using ledgerOfItem_shift[of "p @ [i]" "[]" x] by simp
  with Cons show ?case by (auto simp: ledgerOfItems_simps)
qed

lemma setPageItems_same [simp]: "setPageItems (pageItems y) y = y"
  by (cases y) (simp add: setPageItems_def)

lemma restoreItems_append: "restoreItems (ps @ qs) xs = restoreItems qs (restoreItems ps xs)"
  by (induction ps arbitrary: xs) simp_all

lemma setHiddenAt_deep:
  "q \<noteq> [] \<Longrightarrow> setHiddenAt (k # q) b xs =
     (if k < length xs
      then xs[k := setPageItems (setHiddenAt q b (pageItems (xs ! k))) (xs ! k)]
      else xs)"
  by (cases q) simp_all

lemma restoreItems_below:
  assumes "\<forall>q\<in>set ps. q \<noteq> []" and "k < length xs"
  shows "restoreItems (map ((#) k) ps) xs =
         xs[k := setPageItems (restoreItems ps (pageItems (xs ! k))) (xs ! k)]"
  using assms
proof (induction ps arbitrary: xs)
  case Nil
  then show ?case by simp
next
  case (Cons q ps)
  let ?y = "setPageItems (setHiddenAt q False (pageItems (xs ! k))) (xs ! k)"
  have q: "q \<noteq> []" and ps: "\<forall>q\<in>set ps. q \<noteq> []" using Cons.prems(1) by auto
  have k: "k < length (xs[k := ?y])" using Cons.prems(2) by simp
  have py: "pageItems ?y = setHiddenAt q False (pageItems (xs ! k))"
    by (simp add: setPageItems_def)
  have sy: "setPageItems cs ?y = setPageItems cs (xs ! k)" for cs
    by (simp add: setPageItems_def)
  show ?case
    using Cons.IH[OF ps k] Cons.prems(2) q
    by (simp add: setHiddenAt_deep py sy)
qed

lemma restore_list_aux:
  assumes "\<And>c l i. c \<in> set xs \<Longrightarrow> i < length l \<Longrightarrow> l ! i = hiddenItem c \<Longrightarrow>
             restoreItems (ledgerOfItem [i] c) l = l[i := c]"
  shows "restoreItems (ledgerOfItems [] (length pre) xs) (pre @ map hiddenItem xs) = pre @ xs"
  using assms
proof (induction xs arbitrary: pre)
  case Nil
  then show ?case by (simp add: ledgerOfItems_simps)
next
  case (Cons x xs)
  have "restoreItems (ledgerOfItem [length pre] x) (pre @ hiddenItem x # map hiddenItem xs)
        = (pre @ hiddenItem x # map hiddenItem xs)[length pre := x]"
    by (rule Cons.prems) simp_all
  then have 1: "restoreItems (ledgerOfItem [length pre] x) (pre @ hiddenItem x # map hiddenItem xs)
        = (pre @ [x]) @ map hiddenItem xs"
    by simp
  have 2: "restoreItems (ledgerOfItems [] (length (pre @ [x])) xs) ((pre @ [x]) @ map hiddenItem xs)
        = (pre @ [x]) @ xs"
    by (rule Cons.IH) (simp add: Cons.prems)
  show ?case using 1 2 by (simp add: ledgerOfItems_simps restoreItems_append)
qed

lemma restore_item:
  "i < length l \<Longrightarrow> l ! i = hiddenItem c \<Longrightarrow> restoreItems (ledgerOfItem [i] c) l = l[i := c]"
proof (induction c arbitrary: l i)
  case (Item a h cs)
  have kids: "restoreItems (ledgerOfItems [] 0 cs) (map hiddenItem cs) = cs"
    using restore_list_aux[of cs "[]"] Item.IH by simp
  show ?case
  proof (cases "\<not> h \<and> \<not> shouldHideItem (Item a h cs) \<and> typename a = GroupItem")
    case True
    have ne: "\<forall>q\<in>set (ledgerOfItems [] 0 cs). q \<noteq> []"
      using ledgerOfItems_nonempty by blast
    from True have h: "\<not> h" and s: "\<not> shouldHideItem (Item a h cs)"
      and g: "typename a = GroupItem" by blast+
    have li: "l ! i = Item a h (map hiddenItem cs)"
      using h s g Item.prems(2) by (simp add: hiddenItem_simps)
    have "restoreItems (map ((#) i) (ledgerOfItems [] 0 cs)) l
          = l[i := setPageItems (restoreItems (ledgerOfItems [] 0 cs) (pageItems (l ! i))) (l ! i)]"
      by (rule restoreItems_below[OF ne Item.prems(1)])
    then show ?thesis
      using h s g by (simp add: ledgerOfItem_simps ledgerOfItems_Cons li kids setPageItems_def)
  next
    case False
    then consider (hid) "h" | (cut) "\<not> h" "shouldHideItem (Item a h cs)"
      | (leaf) "\<not> h" "\<not> shouldHideItem (Item a h cs)" "typename a \<noteq> GroupItem"
      by blast
    then show ?thesis
    proof cases
      case hid
      then have "l ! i = Item a h cs" using Item.prems(2) by (simp add: hiddenItem_simps)
      then have "l[i := Item a h cs] = l" by (metis list_update_id)
      then show ?thesis using hid by (simp add: ledgerOfItem_simps)
    next
      case cut
      then have "l ! i = Item a True cs" using Item.prems(2) by (simp add: hiddenItem_simps)
      then show ?thesis
        using cut Item.prems(1) by (simp add: ledgerOfItem_simps setHidden_def)
    next
      case leaf
      then have "l ! i = Item a h cs" using Item.prems(2) by (simp add: hiddenItem_simps)
      then have "l[i := Item a h cs] = l" by (metis list_update_id)
      then show ?thesis using leaf by (simp add: ledgerOfItem_simps)
    qed
  qed
qed

lemma restore_hidden_items:
  "restoreItems (ledgerOfItems [] 0 xs) (map hiddenItem xs) = xs"
  using restore_list_aux[of xs "[]"] restore_item by simp

lemma hide_then_restore:
  "hideAllCutContourItems items [] = (items', ledger) \<Longrightarrow> restoreItems ledger items' = items"
  by (auto simp: hideAll_char restore_hidden_items)

lemma visited_deep:
  "q \<noteq> [] \<Longrightarrow> visited (k # q) xs =
     (k < length xs \<and> \<not> hidden (xs ! k) \<and> \<not> shouldHideItem (xs ! k) \<and>
      typename (attrs (xs ! k)) = GroupItem \<and> visited q (pageItems (xs ! k)))"
  by (cases q) simp_all

lemma itemAt_deep:
  "q \<noteq> [] \<Longrightarrow> itemAt (k # q) xs = (if k < length xs then itemAt q (pageItems (xs ! k)) else None)"
  by (cases q) simp_all

lemma itemAt_nonempty: "itemAt q xs = Some x \<Longrightarrow> q \<noteq> []"
  by (cases q) simp_all

lemma ledgerOfItem_rel: "ledgerOfItem [k] c = map ((#) k) (ledgerOfItem [] c)"
  using ledgerOfItem_shift[of "[k]" "[]" c] by simp

lemma ledgerOfItems_mem:
  "r \<in> set (ledgerOfItems [] i xs) \<longleftrightarrow>
     (\<exists>k r'. k < length xs \<and> r = (i + k) # r' \<and> r' \<in> set (ledgerOfItem [] (xs ! k)))"
proof (induction xs arbitrary: i)
  case Nil
  then show ?case by (simp add: ledgerOfItems_simps)
next
  case (Cons x xs)
  have "r \<in> set (ledgerOfItems [] i (x # xs)) \<longleftrightarrow>
        (\<exists>r'. r = i # r' \<and> r' \<in> set (ledgerOfItem [] x)) \<or>
        (\<exists>k r'. k < length xs \<and> r = (Suc i + k) # r' \<and> r' \<in> set (ledgerOfItem [] (xs ! k)))"
    by (auto simp: ledgerOfItems_simps ledgerOfItem_rel Cons.IH)
  also have "\<dots> \<longleftrightarrow> (\<exists>k r'. k < length (x # xs) \<and> r = (i + k) # r' \<and>
                       r' \<in> set (ledgerOfItem [] ((x # xs) ! k)))"
    (is "?A \<or> ?B \<longleftrightarrow> ?C")
  proof
    assume "?A \<or> ?B"
    then show ?C
    proof
      assume ?A
      then obtain r' where "r = i # r'" "r' \<in> set (ledgerOfItem [] x)" by blast
      then have "0 < length (x # xs) \<and> r = (i + 0) # r' \<and> r' \<in> set (ledgerOfItem [] ((x # xs) ! 0))"
        by simp
      then show ?C by blast
    next
      assume ?B
      then obtain k r' where "k < length xs" "r = (Suc i + k) # r'" "r' \<in> set (ledgerOfItem [] (xs ! k))"
        by blast
      then have "Suc k < length (x # xs) \<and> r = (i + Suc k) # r' \<and>
                 r' \<in> set (ledgerOfItem [] ((x # xs) ! Suc k))"
        by simp
      then show ?C by blast
    qed
  next
    assume ?C
    then obtain k r' where k: "k < length (x # xs)" "r = (i + k) # r'"
      "r' \<in> set (ledgerOfItem [] ((x # xs) ! k))" by blast
    show "?A \<or> ?B"
    proof (cases k)
      case 0
      with k show ?thesis by simp
    next
      case (Suc j)
      with k have "j < length xs \<and> r = (Suc i + j) # r' \<and> r' \<in> set (ledgerOfItem [] (xs ! j))"
        by simp
      then show ?thesis by blast
    qed
  qed
  finally show ?case .
qed

lemma ledgerOfItem_rel_mem:
  "r \<in> set (ledgerOfItem [] y) \<longleftrightarrow>
     (r = [] \<and> \<not> hidden y \<and> shouldHideItem y) \<or>
     (\<not> hidden y \<and> \<not> shouldHideItem y \<and> typename (attrs y) = GroupItem \<and>
      r \<in> set (ledgerOfItems [] 0 (pageItems y)))"
proof (cases y)
  case (Item a h cs)
  have "[] \<notin> set (ledgerOfItems [] 0 cs)" using ledgerOfItems_nonempty by blast
  then show ?thesis using Item by (auto simp: ledgerOfItem_simps)
qed

lemma ledger_iff:
  "r \<in> set (ledgerOfItems [] 0 xs) \<longleftrightarrow>
     visited r xs \<and> (\<exists>x. itemAt r xs = Some x \<and> \<not> hidden x \<and> shouldHideItem x)"
proof (induction r arbitrary: xs)
  case Nil
  then show ?case using ledgerOfItems_nonempty[of "[]" "[]" 0 xs] by auto
next
  case (Cons k r')
  have mem: "k # r' \<in> set (ledgerOfItems [] 0 xs) \<longleftrightarrow>
             k < length xs \<and> r' \<in> set (ledgerOfItem [] (xs ! k))"
    by (auto simp: ledgerOfItems_mem)
  show ?case
  proof (cases "r' = []")
    case True
    have "[] \<notin> set (ledgerOfItems [] 0 (pageItems (xs ! k)))"
      using ledgerOfItems_nonempty by blast
    then have "r' \<in> set (ledgerOfItem [] (xs ! k)) \<longleftrightarrow>
               \<not> hidden (xs ! k) \<and> shouldHideItem (xs ! k)"
      using True by (auto simp: ledgerOfItem_rel_mem)
    then show ?thesis
      unfolding mem using True by auto
  next
    case False
    have "r' \<in> set (ledgerOfItem [] (xs ! k)) \<longleftrightarrow>
          \<not> hidden (xs ! k) \<and> \<not> shouldHideItem (xs ! k) \<and>
          typename (attrs (xs ! k)) = GroupItem \<and>
          visited r' (pageItems (xs ! k)) \<and>
          (\<exists>x. itemAt r' (pageItems (xs ! k)) = Some x \<and> \<not> hidden x \<and> shouldHideItem x)"
      using False Cons.IH[of "pageItems (xs ! k)"] by (auto simp: ledgerOfItem_rel_mem)
    then show ?thesis
      unfolding mem using False by (auto simp: visited_deep itemAt_deep)
  qed
qed

lemma hiddenItem_hidden: "hidden x \<Longrightarrow> hiddenItem x = x"
  by (cases x) (simp add: hiddenItem_simps)

lemma pageItems_hiddenItem:
  "pageItems (hiddenItem y) =
     (if \<not> hidden y \<and> \<not> shouldHideItem y \<and> typename (attrs y) = GroupItem
      then map hiddenItem (pageItems y) else pageItems y)"
  by (cases y) (simp add: hiddenItem_simps)

lemma itemAt_hidden_kept:
  "itemAt q xs = Some x \<Longrightarrow> hidden x \<Longrightarrow> itemAt q (map hiddenItem xs) = Some x"
proof (induction q arbitrary: xs)
  case Nil
  then show ?case by simp
next
  case (Cons k q)
  show ?case
  proof (cases "q = []")
    case True
    with Cons.prems show ?thesis by (auto simp: hiddenItem_hidden split: if_splits)
  next
    case False
    with Cons.prems have k: "k < length xs" and sub: "itemAt q (pageItems (xs ! k)) = Some x"
      by (auto simp: itemAt_deep split: if_splits)
    have "itemAt q (pageItems (hiddenItem (xs ! k))) = Some x"
      using sub Cons.IH[OF sub Cons.prems(2)] by (simp add: pageItems_hiddenItem)
    then show ?thesis using False k by (simp add: itemAt_deep)
  qed
qed

lemma itemAt_visited:
  "visited q xs \<Longrightarrow> itemAt q xs = Some x \<Longrightarrow> itemAt q (map hiddenItem xs) = Some (hiddenItem x)"
proof (induction q arbitrary: xs)
  case Nil
  then show ?case by simp
next
  case (Cons k q)
  show ?case
  proof (cases "q = []")
    case True
    with Cons.prems show ?thesis by (auto split: if_splits)
  next
    case False
    with Cons.prems have k: "k < length xs" and sub: "itemAt q (pageItems (xs ! k)) = Some x"
      and v: "visited q (pageItems (xs ! k))" and g: "\<not> hidden (xs ! k)"
      "\<not> shouldHideItem (xs ! k)" "typename (attrs (xs ! k)) = GroupItem"
      by (auto simp: itemAt_deep visited_deep split: if_splits)
    have "itemAt q (pageItems (hiddenItem (xs ! k))) = Some (hiddenItem x)"
      using g Cons.IH[OF v sub] by (simp add: pageItems_hiddenItem)
    then show ?thesis using False k by (simp add: itemAt_deep)
  qed
qed

lemma visited_above:
  "visited r xs \<Longrightarrow> prefix q r \<Longrightarrow> q \<noteq> [] \<Longrightarrow> q \<noteq> r \<Longrightarrow>
     \<exists>y. itemAt q xs = Some y \<and> \<not> hidden y \<and> \<not> shouldHideItem y \<and> typename (attrs y) = GroupItem"
proof (induction q arbitrary: r xs)
  case Nil
  then show ?case by simp
next
  case (Cons k q)
  from Cons.prems(2) obtain r' where r: "r = k # r'" and pre: "prefix q r'"
    by (cases r) auto
  from Cons.prems(4) r have ne: "q \<noteq> r'" by simp
  show ?case
  proof (cases "q = []")
    case True
    with ne have "r' \<noteq> []" by simp
    with Cons.prems(1) r True show ?thesis by (simp add: visited_deep)
  next
    case False
    with pre have r': "r' \<noteq> []" by auto
    with Cons.prems(1) r have k: "k < length xs" and v: "visited r' (pageItems (xs ! k))"
      by (simp_all add: visited_deep)
    from Cons.IH[OF v pre False ne] show ?thesis using False k by (simp add: itemAt_deep)
  qed
qed

lemma visited_child:
  "visited q xs \<Longrightarrow> itemAt q xs = Some g \<Longrightarrow> \<not> hidden g \<Longrightarrow> \<not> shouldHideItem g \<Longrightarrow>
   typename (attrs g) = GroupItem \<Longrightarrow> k < length (pageItems g) \<Longrightarrow>
   visited (q @ [k]) xs \<and> itemAt (q @ [k]) xs = Some (pageItems g ! k)"
proof (induction q arbitrary: xs)
  case Nil
  then show ?case by simp
next
  case (Cons j q)
  show ?case
  proof (cases "q = []")
    case True
    with Cons.prems show ?thesis by (auto split: if_splits)
  next
    case False
    with Cons.prems(1,2) have j: "j < length xs" and sub: "itemAt q (pageItems (xs ! j)) = Some g"
      and v: "visited q (pageItems (xs ! j))" and g: "\<not> hidden (xs ! j)"
      "\<not> shouldHideItem (xs ! j)" "typename (attrs (xs ! j)) = GroupItem"
      by (auto simp: itemAt_deep visited_deep split: if_splits)
    from Cons.IH[OF v sub Cons.prems(3-6)] show ?thesis
      using False j g by (simp add: itemAt_deep visited_deep)
  qed
qed

lemma plain_sel [simp]:
  "name (plain nm ty) = nm" "typename (plain nm ty) = ty"
  by (simp_all add: plain_def)

lemmas sample_defs = sampleItems_def sampleHidden_def artGroup_def dieGroup_def notesGroup_def
  artPath_def cutPath_def oldPath_def

lemma sample_hide: "hideAllCutContourItems sampleItems [] = (sampleHidden, [[0, 1], [1]])"
  by (simp add: hideAllCutContourItems_def hideBody_def sample_defs shouldHideItem_plain
      name_samples setHidden_def setPageItems_def)

lemma sample_restore: "restoreItems [[0, 1], [1]] sampleHidden = sampleItems"
  by (simp add: sample_defs setHidden_def setPageItems_def)

text \<open>
  C2. Running the hide traversal on a layer's items and then restoring every entry of
  the ledger gives back the items as they were: every hidden flag, at every path, has
  its value from before the traversal.
\<close>

theorem C2_hide_then_restore:
  "hideAllCutContourItems items [] = (items', ledger) \<Longrightarrow>
   restoreItems ledger items' = items \<and>
   map_option hidden (itemAt q (restoreItems ledger items')) = map_option hidden (itemAt q items)"
  by (auto simp: hideAll_char restore_hidden_items)

theorem C2_hide_then_restore_witness:
  "hideAllCutContourItems sampleItems [] = (sampleHidden, [[0, 1], [1]]) \<and>
   restoreItems [[0, 1], [1]] sampleHidden = sampleItems \<and>
   map_option hidden (itemAt [0, 1] sampleHidden) = Some True \<and>
   map_option hidden (itemAt [0, 1] (restoreItems [[0, 1], [1]] sampleHidden)) = Some False"
proof -
  note r = C2_hide_then_restore[OF sample_hide, of "[0, 1]"]
  have 1: "map_option hidden (itemAt [0, 1] sampleHidden) = Some True"
    by (simp add: sample_defs)
  have 2: "map_option hidden (itemAt [0, 1] sampleItems) = Some False"
    by (simp add: sample_defs)
  from r 1 2 sample_hide show ?thesis by simp
qed

text \<open>
  C9. An item that is hidden before the traversal, at any depth, is never appended to
  the ledger, and nothing below it is: the item and its whole subtree come out of the
  traversal unchanged, and no ledger entry is its path or extends it.
\<close>

theorem C9_hidden_items_skipped:
  assumes "itemAt q items = Some x" and "hidden x"
    and "hideAllCutContourItems items [] = (items', ledger)"
  shows "itemAt q items' = Some x \<and> (\<forall>r\<in>set ledger. \<not> prefix q r)"
proof -
  from assms(3) have i: "items' = map hiddenItem items" and l: "ledger = ledgerOfItems [] 0 items"
    by (simp_all add: hideAll_char)
  have "itemAt q items' = Some x"
    unfolding i by (rule itemAt_hidden_kept[OF assms(1,2)])
  moreover have "\<not> prefix q r" if r: "r \<in> set ledger" for r
  proof
    assume p: "prefix q r"
    from r have v: "visited r items"
      and "\<exists>z. itemAt r items = Some z \<and> \<not> hidden z \<and> shouldHideItem z"
      unfolding l by (simp_all add: ledger_iff)
    then obtain z where z: "itemAt r items = Some z" "\<not> hidden z" by blast
    show False
    proof (cases "q = r")
      case True
      with assms(1,2) z show False by simp
    next
      case False
      from visited_above[OF v p itemAt_nonempty[OF assms(1)] False]
      show False using assms(1,2) by auto
    qed
  qed
  ultimately show ?thesis by blast
qed

theorem C9_hidden_items_skipped_witness:
  "itemAt [2] sampleItems = Some notesGroup \<and> hidden notesGroup \<and>
   pageItems notesGroup = [cutPath] \<and> shouldHideItem cutPath \<and>
   itemAt [2] sampleHidden = Some notesGroup \<and>
   \<not> prefix [2 :: nat] [0, 1] \<and> \<not> prefix [2 :: nat] [1]"
proof -
  have a: "itemAt [2] sampleItems = Some notesGroup" by (simp add: sampleItems_def)
  have b: "hidden notesGroup" by (simp add: notesGroup_def)
  have c: "pageItems notesGroup = [cutPath]" "shouldHideItem cutPath"
    by (simp_all add: notesGroup_def cutPath_def shouldHideItem_plain name_samples)
  from C9_hidden_items_skipped[OF a b sample_hide] a b c show ?thesis by simp
qed

text \<open>
  C3, as amended. For a group that the traversal reaches and that is not already
  hidden: when the group's own name matches a pattern, the group is recorded and
  hidden, no ledger entry lies below it and its children are left as they were; when
  the name matches no pattern, each child is evaluated, and a child is recorded exactly
  when it is not hidden and is classified as cut contour.
\<close>

theorem C3_group_children:
  assumes "visited q items" and "itemAt q items = Some g"
    and "typename (attrs g) = GroupItem" and "\<not> hidden g"
    and "hideAllCutContourItems items [] = (items', ledger)"
  shows "(isCutContourName (name (attrs g)) \<longrightarrow>
            q \<in> set ledger \<and> itemAt q items' = Some (setHidden True g) \<and>
            (\<forall>r\<in>set ledger. prefix q r \<longrightarrow> r = q)) \<and>
         (\<not> isCutContourName (name (attrs g)) \<longrightarrow>
            (\<forall>k<length (pageItems g).
               q @ [k] \<in> set ledger \<longleftrightarrow>
               \<not> hidden (pageItems g ! k) \<and> shouldHideItem (pageItems g ! k)))"
proof (intro conjI impI)
  from assms(5) have i: "items' = map hiddenItem items" and l: "ledger = ledgerOfItems [] 0 items"
    by (simp_all add: hideAll_char)
  have sh: "shouldHideItem g = isCutContourName (name (attrs g))"
    by (rule shouldHideItem_group[OF assms(3)])
  {
    assume n: "isCutContourName (name (attrs g))"
    show "q \<in> set ledger"
      unfolding l using assms(1,2,4) n sh by (simp add: ledger_iff)
    have "hiddenItem g = setHidden True g"
      using assms(4) n sh by (cases g) (simp add: hiddenItem_simps setHidden_def)
    then show "itemAt q items' = Some (setHidden True g)"
      unfolding i using itemAt_visited[OF assms(1,2)] by simp
    show "\<forall>r\<in>set ledger. prefix q r \<longrightarrow> r = q"
    proof (intro ballI impI, rule ccontr)
      fix r assume r: "r \<in> set ledger" and p: "prefix q r" and ne: "r \<noteq> q"
      from r have v: "visited r items" unfolding l by (simp add: ledger_iff)
      from ne have "q \<noteq> r" by blast
      from visited_above[OF v p itemAt_nonempty[OF assms(2)] this]
      show False using assms(2) n sh by auto
    qed
  }
  {
    assume n: "\<not> isCutContourName (name (attrs g))"
    show "\<forall>k<length (pageItems g).
            q @ [k] \<in> set ledger \<longleftrightarrow>
            \<not> hidden (pageItems g ! k) \<and> shouldHideItem (pageItems g ! k)"
    proof (intro allI impI)
      fix k assume k: "k < length (pageItems g)"
      from n sh have "\<not> shouldHideItem g" by simp
      from visited_child[OF assms(1,2,4) this assms(3) k]
      show "q @ [k] \<in> set ledger \<longleftrightarrow>
            \<not> hidden (pageItems g ! k) \<and> shouldHideItem (pageItems g ! k)"
        unfolding l by (simp add: ledger_iff)
    qed
  }
qed

theorem C3_group_children_witness:
  "visited [1] sampleItems \<and> itemAt [1] sampleItems = Some dieGroup \<and>
   isCutContourName (name (attrs dieGroup)) \<and>
   [1] \<in> set [[0, 1], [1 :: nat]] \<and> itemAt [1] sampleHidden = Some (setHidden True dieGroup) \<and>
   visited [0] sampleItems \<and> itemAt [0] sampleItems = Some artGroup \<and>
   \<not> isCutContourName (name (attrs artGroup)) \<and>
   [0, 0] \<notin> set [[0, 1], [1 :: nat]] \<and> [0, 1] \<in> set [[0, 1], [1 :: nat]] \<and>
   [0, 2] \<notin> set [[0, 1], [1 :: nat]]"
proof -
  have d: "visited [1] sampleItems" "itemAt [1] sampleItems = Some dieGroup"
    "typename (attrs dieGroup) = GroupItem" "\<not> hidden dieGroup"
    "isCutContourName (name (attrs dieGroup))"
    by (simp_all add: sampleItems_def dieGroup_def name_samples)
  have a: "visited [0] sampleItems" "itemAt [0] sampleItems = Some artGroup"
    "typename (attrs artGroup) = GroupItem" "\<not> hidden artGroup"
    "\<not> isCutContourName (name (attrs artGroup))"
    by (simp_all add: sampleItems_def artGroup_def name_samples)
  from C3_group_children[OF d(1-4) sample_hide] d(5)
  have 1: "itemAt [1] sampleHidden = Some (setHidden True dieGroup)" by blast
  show ?thesis using 1 d a by simp
qed

text \<open>
  The claim as stated fails on a group whose name matches a pattern: the group is
  hidden and the loop continues with the next item, so a cut contour child of the
  group is neither recorded nor hidden.
\<close>

theorem C3_counterexample:
  "itemAt [1] sampleItems = Some dieGroup \<and> typename (attrs dieGroup) = GroupItem \<and>
   \<not> hidden dieGroup \<and> isCutContourName (name (attrs dieGroup)) \<and>
   itemAt [1, 0] sampleItems = Some cutPath \<and> \<not> hidden cutPath \<and> shouldHideItem cutPath \<and>
   [1, 0] \<notin> set (snd (hideAllCutContourItems sampleItems [])) \<and>
   itemAt [1, 0] (fst (hideAllCutContourItems sampleItems [])) = Some cutPath"
  by (simp add: sample_hide)
    (simp add: sample_defs shouldHideItem_plain name_samples)

section \<open>What the bounds aggregator computes\<close>

lemma step_none: "contribution it = None \<Longrightarrow> collectBoundsStep bo it = bo"
  by (auto simp: contribution_def collectBoundsStep_def split: if_splits sum.splits)

lemma step_sentinel:
  "contribution it = Some c \<Longrightarrow> collectBoundsStep sentinel it = boundsOf c"
  by (cases c) (auto simp: contribution_def collectBoundsStep_def sentinel_def gt_def
      split: if_splits sum.splits)

lemma step_box:
  "contribution it = Some c \<Longrightarrow> collectBoundsStep (boundsOf box) it = boundsOf (unionBox box c)"
  by (cases c; cases box)
    (auto simp: contribution_def collectBoundsStep_def gt_def Let_def min_def max_def
      split: if_splits sum.splits)

lemma collect_box:
  "collectBoundsRecursive items (boundsOf box) =
     boundsOf (foldl unionBox box (List.map_filter contribution items))"
proof (induction items arbitrary: box)
  case Nil
  then show ?case by (simp add: map_filter_simps)
next
  case (Cons it items)
  show ?case
  proof (cases "contribution it")
    case None
    then show ?thesis using Cons.IH by (simp add: map_filter_simps step_none)
  next
    case (Some c)
    then show ?thesis using Cons.IH by (simp add: map_filter_simps step_box)
  qed
qed

lemma collect_sentinel:
  "collectBoundsRecursive items sentinel =
     (case List.map_filter contribution items of
        [] \<Rightarrow> sentinel
      | c # cs \<Rightarrow> boundsOf (foldl unionBox c cs))"
proof (induction items)
  case Nil
  then show ?case by (simp add: map_filter_simps)
next
  case (Cons it items)
  show ?case
  proof (cases "contribution it")
    case None
    then show ?thesis using Cons.IH by (simp add: map_filter_simps step_none)
  next
    case (Some c)
    then show ?thesis by (simp add: map_filter_simps step_sentinel collect_box)
  qed
qed

lemma leftB_sentinel: "leftB sentinel = PosInf"
  by (simp add: sentinel_def)

lemma leftB_boundsOf: "leftB (boundsOf box) \<noteq> PosInf"
  by (cases box) simp

lemma boundsOf_jsBox:
  "(leftB (boundsOf box), topB (boundsOf box), rightB (boundsOf box), bottomB (boundsOf box)) = jsBox box"
  by (cases box) simp

text \<open>
  What \<open>getLayerBounds\<close> computes: the union of the boxes of the layer's own items that
  are not hidden and have readable geometry, or null when there is none.
\<close>

lemma getLayerBounds_char:
  "getLayerBounds items =
     (case List.map_filter contribution items of
        [] \<Rightarrow> None
      | c # cs \<Rightarrow> Some (jsBox (foldl unionBox c cs)))"
proof (cases items)
  case Nil
  then show ?thesis by (simp add: getLayerBounds_def map_filter_simps)
next
  case (Cons it its)
  have "getLayerBounds items =
        (let bo = collectBoundsRecursive items sentinel
         in if leftB bo = PosInf then None else Some (leftB bo, topB bo, rightB bo, bottomB bo))"
    using Cons by (simp add: getLayerBounds_def sentinel_def)
  also have "\<dots> = (case List.map_filter contribution items of
        [] \<Rightarrow> None
      | c # cs \<Rightarrow> Some (jsBox (foldl unionBox c cs)))"
    by (simp add: collect_sentinel Let_def leftB_boundsOf boundsOf_jsBox leftB_sentinel
        split: list.splits)
  finally show ?thesis .
qed

lemma contribution_hiddenItem:
  "contribution (hiddenItem it) = (if shouldHideItem it then None else contribution it)"
  by (cases it) (simp add: hiddenItem_simps contribution_def)

lemma map_filter_nonempty:
  "x \<in> set xs \<Longrightarrow> f x = Some y \<Longrightarrow> List.map_filter f xs \<noteq> []"
  by (induction xs) (auto simp: map_filter_simps split: option.splits)

lemma getLayerBounds_content:
  assumes "it \<in> set items" "\<not> hidden it" "\<not> shouldHideItem it" "geometricBounds (attrs it) = Inr b"
  shows "\<exists>box. getLayerBounds (map hiddenItem items) = Some (jsBox box)"
proof -
  have "contribution it = Some b"
    using assms(2,4) by (simp add: contribution_def)
  then have "contribution (hiddenItem it) = Some b"
    using assms(3) by (simp add: contribution_hiddenItem)
  moreover have "hiddenItem it \<in> set (map hiddenItem items)" using assms(1) by simp
  ultimately have "List.map_filter contribution (map hiddenItem items) \<noteq> []"
    by (rule map_filter_nonempty[rotated])
  then obtain c cs where "List.map_filter contribution (map hiddenItem items) = c # cs"
    by (cases "List.map_filter contribution (map hiddenItem items)") simp_all
  then have "getLayerBounds (map hiddenItem items) = Some (jsBox (foldl unionBox c cs))"
    by (simp add: getLayerBounds_char)
  then show ?thesis by (rule exI)
qed

section \<open>The export run leaves the document as it was\<close>

lemma length_setOnlyVisible [simp]: "length (setOnlyVisible i ls) = length ls"
  by (simp add: setOnlyVisible_def)

lemma nth_setOnlyVisible:
  "j < length ls \<Longrightarrow> setOnlyVisible i ls ! j = (ls ! j)\<lparr>visible := (j = i)\<rparr>"
  by (simp add: setOnlyVisible_def nth_enumerate_eq)

lemma visible_setOnlyVisible:
  "map visible (setOnlyVisible i ls) = map (\<lambda>j. j = i) [0..<length ls]"
  by (rule nth_equalityI) (simp_all add: nth_setOnlyVisible)

lemma length_setLayerItems [simp]: "length (setLayerItems i xs ls) = length ls"
  by (simp add: setLayerItems_def)

lemma visible_setLayerItems: "map visible (setLayerItems i xs ls) = map visible ls"
proof (cases "i < length ls")
  case True
  have "map visible (setLayerItems i xs ls) = (map visible ls)[i := visible (ls ! i)]"
    by (simp add: setLayerItems_def map_update)
  also have "\<dots> = (map visible ls)[i := map visible ls ! i]" using True by simp
  also have "\<dots> = map visible ls" by (rule list_update_id)
  finally show ?thesis .
next
  case False
  then have "ls[i := (ls ! i)\<lparr>layer_pageItems := xs\<rparr>] = ls"
    by (simp add: list_update_beyond)
  then show ?thesis by (simp add: setLayerItems_def)
qed

lemma setLayerItems_back:
  "i < length ls \<Longrightarrow> setLayerItems i (layer_pageItems (ls ! i)) (setLayerItems i xs ls) = ls"
  by (simp add: setLayerItems_def list_update_same_conv)

lemma sameButVisible_refl: "sameButVisible ls ls"
  by (simp add: sameButVisible_def)

lemma sameButVisible_length: "sameButVisible ls ls' \<Longrightarrow> length ls = length ls'"
  unfolding sameButVisible_def by (rule map_eq_imp_length_eq)

lemma sameButVisible_nth:
  assumes "sameButVisible ls ls'" "j < length ls"
  shows "layer_name (ls ! j) = layer_name (ls' ! j)"
    and "layer_pageItems (ls ! j) = layer_pageItems (ls' ! j)"
    and "(ls ! j)\<lparr>visible := v\<rparr> = (ls' ! j)\<lparr>visible := v\<rparr>"
proof -
  have len: "j < length ls'" using assms sameButVisible_length by auto
  have "map (\<lambda>l. l\<lparr>visible := True\<rparr>) ls ! j = map (\<lambda>l. l\<lparr>visible := True\<rparr>) ls' ! j"
    using assms(1) by (simp add: sameButVisible_def)
  then have e: "(ls ! j)\<lparr>visible := True\<rparr> = (ls' ! j)\<lparr>visible := True\<rparr>"
    using assms(2) len by simp
  from e have "layer_name ((ls ! j)\<lparr>visible := True\<rparr>) = layer_name ((ls' ! j)\<lparr>visible := True\<rparr>)"
    by simp
  then show "layer_name (ls ! j) = layer_name (ls' ! j)" by simp
  from e have "layer_pageItems ((ls ! j)\<lparr>visible := True\<rparr>) = layer_pageItems ((ls' ! j)\<lparr>visible := True\<rparr>)"
    by simp
  then show "layer_pageItems (ls ! j) = layer_pageItems (ls' ! j)" by simp
  from e have "((ls ! j)\<lparr>visible := True\<rparr>)\<lparr>visible := v\<rparr> = ((ls' ! j)\<lparr>visible := True\<rparr>)\<lparr>visible := v\<rparr>"
    by simp
  then show "(ls ! j)\<lparr>visible := v\<rparr> = (ls' ! j)\<lparr>visible := v\<rparr>" by simp
qed

lemma sameButVisible_setOnlyVisible:
  "sameButVisible ls ls' \<Longrightarrow> sameButVisible (setOnlyVisible i ls) ls'"
  unfolding sameButVisible_def
  by (erule subst) (rule nth_equalityI, simp_all add: nth_setOnlyVisible)

lemma restoreVisibility_same:
  assumes "sameButVisible ls ls'"
  shows "restoreVisibility (map visible ls') ls = ls'"
proof (rule nth_equalityI)
  show "length (restoreVisibility (map visible ls') ls) = length ls'"
    using sameButVisible_length[OF assms] by (simp add: restoreVisibility_def)
next
  fix j assume "j < length (restoreVisibility (map visible ls') ls)"
  then have j: "j < length ls" "j < length ls'"
    using sameButVisible_length[OF assms] by (simp_all add: restoreVisibility_def)
  have "restoreVisibility (map visible ls') ls ! j = (ls ! j)\<lparr>visible := visible (ls' ! j)\<rparr>"
    using j by (simp add: restoreVisibility_def)
  also have "\<dots> = (ls' ! j)\<lparr>visible := visible (ls' ! j)\<rparr>"
    by (rule sameButVisible_nth(3)[OF assms j(1)])
  finally show "restoreVisibility (map visible ls') ls ! j = ls' ! j" by simp
qed

text \<open>The round for a layer whose name resolves to no size.\<close>

lemma exportLayer_ignored:
  "resolveSize (trim (layer_name (layers (doc st) ! i))) = NotApplicable \<Longrightarrow>
   exportLayer render st i = st"
  by (simp add: exportLayer_def)

lemma exportLayer_unknown:
  "resolveSize (trim (layer_name (layers (doc st) ! i))) = UnknownNumeric \<Longrightarrow>
   exportLayer render st i =
     st\<lparr>results := results st @ [SkippedNotInMapping (trim (layer_name (layers (doc st) ! i)))]\<rparr>"
  by (simp add: exportLayer_def)

text \<open>
  The round for a layer whose name resolves to a size: after it, the document differs
  from the one before in the visible flags only, the hidden items being restored.
\<close>

lemma exportLayer_resolved:
  assumes i: "i < length (layers (doc st))"
    and r: "resolveSize (trim (layer_name (layers (doc st) ! i))) = Resolved outputName w h"
  shows "exportLayer render st i =
     (let ls = layers (doc st);
          layerName = trim (layer_name (ls ! i));
          items = layer_pageItems (ls ! i);
          total = hiddenItemsTotal st + length (ledgerOfItems [] 0 items)
      in case getLayerBounds (map hiddenItem items) of
           None \<Rightarrow>
             st\<lparr>doc := \<lparr>layers = setOnlyVisible i ls\<rparr>,
                results := results st @ [SkippedEmpty layerName],
                hiddenItemsTotal := total\<rparr>
         | Some (c0, c1, c2, c3) \<Rightarrow>
             (let centerX = half (add c0 c2);
                  centerY = half (add c1 c3);
                  req = \<lparr>filename = outputName @ ''.png'',
                         artboardRect = (sub centerX (half w), add centerY (half h),
                                         add centerX (half w), sub centerY (half h)),
                         scale = (exportPPI / 72) * 100,
                         shown = setLayerItems i (map hiddenItem items) (setOnlyVisible i ls)\<rparr>
              in st\<lparr>doc := \<lparr>layers = setOnlyVisible i ls\<rparr>,
                    exported := exported st + 1,
                    results := results st @ [ExportedLine layerName outputName w h],
                    hiddenItemsTotal := total,
                    requests := requests st @ [(req, render req)]\<rparr>))"
proof -
  let ?ls = "layers (doc st)"
  let ?ls1 = "setOnlyVisible i ?ls"
  let ?items = "layer_pageItems (?ls ! i)"
  have it: "layer_pageItems (?ls1 ! i) = ?items"
    using i by (simp add: nth_setOnlyVisible)
  have i1: "i < length ?ls1" using i by simp
  have rest: "setLayerItems i ?items (setLayerItems i (map hiddenItem ?items) ?ls1) = ?ls1"
    using setLayerItems_back[OF i1, of "map hiddenItem ?items"] it by simp
  show ?thesis
    using r
    by (simp add: exportLayer_def Let_def it hideAll_char restore_hidden_items rest
        split: option.splits)
qed

lemma runInv_step:
  assumes inv: "runInv d st" and i: "i < length (layers d)"
  shows "runInv d (exportLayer render st i)"
proof -
  let ?ls = "layers (doc st)"
  from inv have same: "sameButVisible ?ls (layers d)"
    and reqs: "\<forall>rs\<in>set (requests st). soleVisible d (fst rs)"
    by (simp_all add: runInv_def)
  have len: "length ?ls = length (layers d)" by (rule sameButVisible_length[OF same])
  have i': "i < length ?ls" using i len by simp
  have nm: "layer_name (?ls ! i) = layer_name (layers d ! i)"
    by (rule sameButVisible_nth(1)[OF same i'])
  show ?thesis
  proof (cases "resolveSize (trim (layer_name (?ls ! i)))")
    case NotApplicable
    then show ?thesis using inv by (simp add: exportLayer_ignored)
  next
    case UnknownNumeric
    then show ?thesis using inv by (simp add: exportLayer_unknown runInv_def)
  next
    case (Resolved outputName w h)
    have same1: "sameButVisible (setOnlyVisible i ?ls) (layers d)"
      by (rule sameButVisible_setOnlyVisible[OF same])
    have sole: "soleVisible d r"
      if "filename r = outputName @ ''.png''"
        and "shown r = setLayerItems i xs (setOnlyVisible i ?ls)" for r xs
      unfolding soleVisible_def
    proof (intro exI[of _ i] conjI)
      show "i < length (layers d)" by (rule i)
      show "map visible (shown r) = map (\<lambda>j. j = i) [0..<length (layers d)]"
        using that(2) len by (simp add: visible_setLayerItems visible_setOnlyVisible)
      show "\<exists>outputName w h.
              resolveSize (trim (layer_name (layers d ! i))) = Resolved outputName w h \<and>
              filename r = outputName @ ''.png''"
        using Resolved nm that(1) by auto
    qed
    show ?thesis
      unfolding exportLayer_resolved[OF i' Resolved] runInv_def
      using same1 reqs sole
      by (auto simp: Let_def split: option.splits)
  qed
qed

lemma runInv_fold:
  "runInv d st \<Longrightarrow> \<forall>i\<in>set js. i < length (layers d) \<Longrightarrow>
   runInv d (foldl (exportLayer render) st js)"
  by (induction js arbitrary: st) (simp_all add: runInv_step)

lemma runInv_run:
  "runInv d (foldl (exportLayer render)
      \<lparr>doc = d, exported = 0, results = [], hiddenItemsTotal = 0, requests = []\<rparr>
      [0..<length (layers d)])"
  by (rule runInv_fold) (simp_all add: runInv_def sameButVisible_refl)

lemma exportByLayers_doc: "doc (exportByLayers render d) = d"
proof -
  have "sameButVisible (layers (doc (foldl (exportLayer render)
      \<lparr>doc = d, exported = 0, results = [], hiddenItemsTotal = 0, requests = []\<rparr>
      [0..<length (layers d)]))) (layers d)"
    using runInv_run[of d render] by (simp add: runInv_def)
  then show ?thesis
    by (simp add: exportByLayers_def Let_def restoreVisibility_same)
qed

lemma exportByLayers_requests:
  "rs \<in> set (requests (exportByLayers render d)) \<Longrightarrow> soleVisible d (fst rs)"
  using runInv_run[of d render] by (simp add: exportByLayers_def Let_def runInv_def)

text \<open>
  C1. Whatever happens to the single layers (exported, skipped as unknown number,
  ignored, skipped as empty, or rendered with a failure status), \<open>exportByLayers\<close>
  leaves the document as it found it, so every layer has its visible flag from before
  the run; and at every request to the renderer exactly one layer is visible, the one
  whose name resolved to the file being written.
\<close>

theorem C1_layer_visibility:
  "doc (exportByLayers render d) = d \<and>
   map visible (layers (doc (exportByLayers render d))) = map visible (layers d) \<and>
   (\<forall>rs\<in>set (requests (exportByLayers render d)). soleVisible d (fst rs))"
  using exportByLayers_doc exportByLayers_requests by simp

text \<open>The four kinds of round, for a state that differs from the document in visible flags only.\<close>

lemma step_ignored:
  assumes "sameButVisible (layers (doc st)) (layers d)" "i < length (layers d)"
    and "resolveSize (trim (layer_name (layers d ! i))) = NotApplicable"
  shows "exportLayer render st i = st"
proof -
  have "i < length (layers (doc st))" using assms(1,2) sameButVisible_length by simp
  then have "layer_name (layers (doc st) ! i) = layer_name (layers d ! i)"
    by (rule sameButVisible_nth(1)[OF assms(1)])
  then show ?thesis using assms(3) by (simp add: exportLayer_ignored)
qed



lemma step_exported:
  assumes same: "sameButVisible (layers (doc st)) (layers d)" and i: "i < length (layers d)"
    and r: "resolveSize (trim (layer_name (layers d ! i))) = Resolved outputName (Fin w) (Fin h)"
    and b: "getLayerBounds (map hiddenItem (layer_pageItems (layers d ! i))) = Some (jsBox box)"
  shows "\<exists>req. sameButVisible (layers (doc (exportLayer render st i))) (layers d) \<and>
         exported (exportLayer render st i) = exported st + 1 \<and>
         results (exportLayer render st i) =
           results st @ [ExportedLine (trim (layer_name (layers d ! i))) outputName (Fin w) (Fin h)] \<and>
         requests (exportLayer render st i) = requests st @ [(req, render req)] \<and>
         filename req = outputName @ ''.png'' \<and>
         rectWidth (artboardRect req) = Fin w \<and> rectHeight (artboardRect req) = Fin h"
proof -
  have i': "i < length (layers (doc st))" using same i sameButVisible_length by simp
  have nm: "layer_name (layers (doc st) ! i) = layer_name (layers d ! i)"
    and it: "layer_pageItems (layers (doc st) ! i) = layer_pageItems (layers d ! i)"
    by (rule sameButVisible_nth[OF same i'])+
  have r': "resolveSize (trim (layer_name (layers (doc st) ! i))) = Resolved outputName (Fin w) (Fin h)"
    using r nm by simp
  obtain c0 c1 c2 c3 where box: "box = (c0, c1, c2, c3)" by (cases box)
  let ?cx = "(c0 + c2) / 2" and ?cy = "(c1 + c3) / 2"
  let ?req = "\<lparr>filename = outputName @ ''.png'',
      artboardRect = (sub (Fin ?cx) (half (Fin w)), add (Fin ?cy) (half (Fin h)),
                      add (Fin ?cx) (half (Fin w)), sub (Fin ?cy) (half (Fin h))),
      scale = (exportPPI / 72) * 100,
      shown = setLayerItems i (map hiddenItem (layer_pageItems (layers d ! i)))
                (setOnlyVisible i (layers (doc st)))\<rparr>"
  have st': "exportLayer render st i =
      st\<lparr>doc := \<lparr>layers = setOnlyVisible i (layers (doc st))\<rparr>,
         exported := exported st + 1,
         results := results st @
           [ExportedLine (trim (layer_name (layers d ! i))) outputName (Fin w) (Fin h)],
         hiddenItemsTotal := hiddenItemsTotal st +
           length (ledgerOfItems [] 0 (layer_pageItems (layers d ! i))),
         requests := requests st @ [(?req, render ?req)]\<rparr>"
    unfolding exportLayer_resolved[OF i' r']
    using b by (simp add: Let_def it nm box)
  show ?thesis
    unfolding st'
    using sameButVisible_setOnlyVisible[OF same, of i]
    by (intro exI[of _ ?req]) (simp add: sub_def)
qed

lemma trim_samples:
  "trim ''35'' = ''35''" "trim ''999'' = ''999''" "trim ''abc'' = ''abc''"
  "trim ''54x72'' = ''54x72''"
  by (simp_all add: trim_def isSpace_def)





lemma sample_items:
  "\<not> hidden artPath" "\<not> shouldHideItem artPath"
  "geometricBounds (attrs artPath) = Inr (0, 10, 10, 0)"
  "\<not> hidden artGroup" "\<not> shouldHideItem artGroup"
  "geometricBounds (attrs artGroup) = Inr (0, 10, 10, 0)"
  "\<not> hidden cutPath" "shouldHideItem cutPath"
  "geometricBounds (attrs cutPath) = Inr (0, 10, 10, 0)"
  by (simp_all add: artPath_def artGroup_def cutPath_def shouldHideItem_plain name_samples)
    (simp_all add: plain_def)




lemma upt_2: "[0..<2] = [0, 1]"
  by (simp add: upt_rec)

theorem C1_layer_visibility_witness:
  "doc (exportByLayers (\<lambda>r. False) twoLayerDoc) = twoLayerDoc \<and>
   map visible (layers (doc (exportByLayers (\<lambda>r. False) twoLayerDoc))) = [False, True] \<and>
   (\<exists>r. requests (exportByLayers (\<lambda>r. False) twoLayerDoc) = [(r, False)] \<and>
        filename r = ''54x72.png'' \<and> map visible (shown r) = [True, False])"
proof -
  let ?d = twoLayerDoc and ?render = "\<lambda>r :: request. False"
  note c1 = C1_layer_visibility[of ?render ?d]
  have len: "length (layers ?d) = 2" by (simp add: twoLayerDoc_def)
  have nm: "layer_name (layers ?d ! 0) = ''54x72''" "layer_name (layers ?d ! 1) = ''notes''"
    by (simp_all add: twoLayerDoc_def)
  have tr: "trim ''notes'' = ''notes''" by (simp add: trim_def isSpace_def)
  have r: "resolveSize (trim (layer_name (layers ?d ! 0))) = Resolved ''54x72'' (Fin 57) (Fin 75)"
    "resolveSize (trim (layer_name (layers ?d ! 1))) = NotApplicable"
    unfolding nm trim_samples tr by (simp_all add: resolve_eval)
  define st0 where "st0 = \<lparr>doc = ?d, exported = 0, results = [], hiddenItemsTotal = 0, requests = []\<rparr>"
  define st1 where "st1 = exportLayer ?render st0 0"
  have run: "requests (exportByLayers ?render ?d) = requests (exportLayer ?render st1 1)"
    by (simp add: exportByLayers_def Let_def len upt_2 st1_def st0_def)
  have m: "artPath \<in> set (layer_pageItems (layers ?d ! 0))" by (simp add: twoLayerDoc_def)
  obtain box where b: "getLayerBounds (map hiddenItem (layer_pageItems (layers ?d ! 0))) = Some (jsBox box)"
    using getLayerBounds_content[OF m sample_items(1-3)] by blast
  have s0: "sameButVisible (layers (doc st0)) (layers ?d)"
    by (simp add: st0_def sameButVisible_refl)
  have i: "0 < length (layers ?d)" "1 < length (layers ?d)" by (simp_all add: len)
  from step_exported[OF s0 i(1) r(1) b, of ?render]
  obtain req where s1: "sameButVisible (layers (doc st1)) (layers ?d)"
    and q1: "requests st1 = [(req, False)]" and f: "filename req = ''54x72.png''"
    unfolding st1_def[symmetric] by (auto simp: st0_def)
  have "exportLayer ?render st1 1 = st1" by (rule step_ignored[OF s1 i(2) r(2)])
  then have q: "requests (exportByLayers ?render ?d) = [(req, False)]"
    using run q1 by simp
  then have "soleVisible ?d req" using c1 by simp
  then obtain k where k: "k < 2" "map visible (shown req) = map (\<lambda>j. j = k) [0..<2]"
    and "\<exists>outputName w h. resolveSize (trim (layer_name (layers ?d ! k))) = Resolved outputName w h"
    unfolding soleVisible_def len by blast
  then have "k = 0" using r(2) by (cases k) auto
  then have "map visible (shown req) = [True, False]" using k(2) by (simp add: upt_2)
  moreover have "map visible (layers ?d) = [False, True]" by (simp add: twoLayerDoc_def)
  ultimately show ?thesis using c1 q f by auto
qed

section \<open>Faults while reading properties\<close>

lemma colorRule_fault_path:
  "colorRule it = Inl e \<Longrightarrow> typename (attrs it) \<noteq> GroupItem"
  by (auto simp: colorRule_def split: if_splits)

lemma shouldHideItem_fault:
  "colorRule it = Inl e \<Longrightarrow> shouldHideItem it = isCutContourName (name (attrs it))"
  by (auto simp: shouldHideItem_def isCutContourName_def)

lemma map_filter_skip:
  "f x = None \<Longrightarrow> List.map_filter f (xs @ x # ys) = List.map_filter f (xs @ ys)"
  by (simp add: map_filter_def)

lemma collect_append:
  "collectBoundsRecursive (xs @ ys) bo = collectBoundsRecursive ys (collectBoundsRecursive xs bo)"
  by (induction xs arbitrary: bo) simp_all

text \<open>
  C8. A fault while a property is read never leaves the classifier or the bounds
  aggregator. If inspecting the stroke or fill colour raises an error, the classifier
  answers what the name rule decided, false when the name matched no pattern, and the
  traversal leaves such an item alone and goes on. If reading an item's geometry raises
  an error, the item adds nothing to the bounds and the aggregation goes on with the
  other items.
\<close>

theorem C8_faults_swallowed:
  "(colorRule it = Inl e \<longrightarrow>
      shouldHideItem it = isCutContourName (name (attrs it)) \<and>
      (\<not> isCutContourName (name (attrs it)) \<longrightarrow> \<not> shouldHideItem it) \<and>
      (\<not> hidden it \<and> \<not> isCutContourName (name (attrs it)) \<longrightarrow>
         hideBody q it L = (it, L) \<and>
         fst (hideAllCutContourItems (xs @ it # ys) []) =
           fst (hideAllCutContourItems xs []) @ it # fst (hideAllCutContourItems ys []))) \<and>
   (geometricBounds (attrs it) = Inl e \<longrightarrow>
      collectBoundsStep bo it = bo \<and>
      collectBoundsRecursive (xs @ it # ys) bo = collectBoundsRecursive (xs @ ys) bo \<and>
      getLayerBounds (xs @ it # ys) = getLayerBounds (xs @ ys))"
proof (intro conjI impI)
  assume c: "colorRule it = Inl e"
  show s: "shouldHideItem it = isCutContourName (name (attrs it))"
    by (rule shouldHideItem_fault[OF c])
  { assume "\<not> isCutContourName (name (attrs it))"
    then show "\<not> shouldHideItem it" using s by simp }
  { assume a: "\<not> hidden it \<and> \<not> isCutContourName (name (attrs it))"
    then have b: "hideBody p it M = (it, M)" for p M
      using s colorRule_fault_path[OF c] by (simp add: hideBody_def)
    have "hiddenItem it = fst (hideBody [] it [])"
      by (simp add: hiddenItem_def hideBody_eq)
    then have "hiddenItem it = it" by (simp add: b)
    then show "fst (hideAllCutContourItems (xs @ it # ys) []) =
           fst (hideAllCutContourItems xs []) @ it # fst (hideAllCutContourItems ys [])"
      by (simp add: hideAll_char)
    show "hideBody q it L = (it, L)" by (rule b) }
next
  assume g: "geometricBounds (attrs it) = Inl e"
  then have n: "contribution it = None" by (simp add: contribution_def)
  show st: "collectBoundsStep bo it = bo" by (rule step_none[OF n])
  have "collectBoundsStep b it = b" for b by (rule step_none[OF n])
  then show "collectBoundsRecursive (xs @ it # ys) bo = collectBoundsRecursive (xs @ ys) bo"
    by (simp add: collect_append)
  show "getLayerBounds (xs @ it # ys) = getLayerBounds (xs @ ys)"
    by (simp only: getLayerBounds_char map_filter_skip[of contribution it, OF n])
qed

theorem C8_faults_swallowed_witness:
  "colorRule faultyStrokePath = Inl ReadFault \<and> \<not> shouldHideItem faultyStrokePath \<and>
   hideBody [0] faultyStrokePath [] = (faultyStrokePath, []) \<and>
   geometricBounds (attrs noGeometryPath) = Inl ReadFault \<and>
   getLayerBounds ([] @ noGeometryPath # [artPath]) = Some (Fin 0, Fin 10, Fin 10, Fin 0)"
proof -
  have c: "colorRule faultyStrokePath = Inl ReadFault"
    by (simp add: faultyStrokePath_def colorRule_def colorCheck_def)
  have n: "\<not> isCutContourName (name (attrs faultyStrokePath))" "\<not> hidden faultyStrokePath"
    by (simp_all add: faultyStrokePath_def isCutContourName_def)
  have g: "geometricBounds (attrs noGeometryPath) = Inl ReadFault"
    by (simp add: noGeometryPath_def)
  have b: "getLayerBounds ([] @ [artPath]) = Some (Fin 0, Fin 10, Fin 10, Fin 0)"
    by (simp add: getLayerBounds_char map_filter_simps contribution_def artPath_def plain_def)
  note t1 = C8_faults_swallowed[where it = faultyStrokePath and e = ReadFault and q = "[0]"
      and L = "[]" and xs = "[]" and ys = "[]"]
  note t2 = C8_faults_swallowed[where it = noGeometryPath and e = ReadFault and xs = "[]"
      and ys = "[artPath]"]
  from t1 c n have 1: "\<not> shouldHideItem faultyStrokePath"
    "hideBody [0] faultyStrokePath [] = (faultyStrokePath, [])" by blast+
  from t2 g b have 2: "getLayerBounds ([] @ noGeometryPath # [artPath]) = Some (Fin 0, Fin 10, Fin 10, Fin 0)"
    by simp
  from c 1 g 2 show ?thesis by blast
qed

text \<open>
  C6. \<open>collectBoundsRecursive\<close> is a single loop over the layer's own items and never
  descends into a group. A layer whose only item is a visible group with unreadable
  geometry has no bounds, although the group holds a visible path; and for a group
  whose cut contour child the traversal has hidden, the bounds are the group's own box,
  which spans the hidden child.
\<close>

theorem C6_bounds_no_descent:
  "\<not> hidden looseGroup \<and> pageItems looseGroup = [artPath] \<and> \<not> hidden artPath \<and>
   geometricBounds (attrs artPath) = Inr (0, 10, 10, 0) \<and>
   getLayerBounds [looseGroup] = None \<and>
   getLayerBounds (fst (hideAllCutContourItems [wideGroup] [])) =
     Some (Fin 0, Fin 100, Fin 100, Fin 0)"
proof -
  have 1: "getLayerBounds [looseGroup] = None"
    by (simp add: getLayerBounds_char map_filter_simps contribution_def looseGroup_def)
  have h: "hiddenItem wideGroup =
     Item \<lparr>name = ''artwork'', typename = GroupItem, stroked = False, strokeColor = Inr None,
           filled = False, fillColor = Inr None, geometricBounds = Inr (0, 100, 100, 0)\<rparr>
       False
       [Item \<lparr>name = ''art'', typename = PathItem, stroked = False, strokeColor = Inr None,
              filled = False, fillColor = Inr None, geometricBounds = Inr (10, 50, 50, 10)\<rparr>
          False [],
        Item \<lparr>name = ''CutContour'', typename = PathItem, stroked = False, strokeColor = Inr None,
              filled = False, fillColor = Inr None, geometricBounds = Inr (0, 100, 100, 0)\<rparr>
          True []]"
    by (simp add: wideGroup_def hiddenItem_simps shouldHideItem_def colorRule_def
        colorCheck_def name_samples)
  have 2: "getLayerBounds (fst (hideAllCutContourItems [wideGroup] [])) =
     Some (Fin 0, Fin 100, Fin 100, Fin 0)"
    by (simp add: hideAll_char h getLayerBounds_char map_filter_simps contribution_def)
  show ?thesis using 1 2 sample_items(1,3) by (simp add: looseGroup_def)
qed

end
